theory Spec2Isabelle
  imports Complex_Main "HOL-Library.Product_Order"
begin

section \<open>IEEE double precision\<close>

text \<open>
  Python's \<^verbatim>\<open>float\<close> and the elements of a numpy array are IEEE 754 doubles: every
  arithmetic operation returns the exact result rounded to the nearest number with a
  significand of 53 bits, a tie going to the even significand. \<open>rnd\<close> is that rounding
  on the reals, with the smallest exponent \<open>- 1074\<close> of the subnormal numbers. A
  \<open>double\<close> is a real that \<open>rnd\<close> returns. Overflow to infinity, NaN and the sign of
  zero are not modelled.
\<close>

definition round_even :: "real \<Rightarrow> int" where
  "round_even y =
     (let f = \<lfloor>y\<rfloor>
      in if y - of_int f < 1 / 2 then f
         else if 1 / 2 < y - of_int f then f + 1
         else if even f then f else f + 1)"

definition expo :: "real \<Rightarrow> int" where
  "expo x = max (\<lfloor>log 2 \<bar>x\<bar>\<rfloor> - 52) (- 1074)"

definition rnd :: "real \<Rightarrow> real" where
  "rnd x = (if x = 0 then 0 else of_int (round_even (x / 2 powi expo x)) * 2 powi expo x)"

typedef double = "range rnd"
  by auto

setup_lifting type_definition_double

text \<open>
  \<open>dbl x\<close> is the double nearest to the real \<open>x\<close>, which is what a decimal literal of
  the program denotes; \<open>val\<close> is the real value of a double.
\<close>

lift_definition dbl :: "real \<Rightarrow> double" is rnd
  by simp

lift_definition val :: "double \<Rightarrow> real" is "\<lambda>x. x" .

instantiation double :: "{zero, plus, minus, uminus, times, inverse, ord}"
begin

lift_definition zero_double :: double is 0
  by (rule range_eqI [of _ _ 0]) (simp add: rnd_def)

lift_definition plus_double :: "double \<Rightarrow> double \<Rightarrow> double" is "\<lambda>x y. rnd (x + y)"
  by simp

lift_definition minus_double :: "double \<Rightarrow> double \<Rightarrow> double" is "\<lambda>x y. rnd (x - y)"
  by simp

lift_definition uminus_double :: "double \<Rightarrow> double" is "\<lambda>x. rnd (- x)"
  by simp

lift_definition times_double :: "double \<Rightarrow> double \<Rightarrow> double" is "\<lambda>x y. rnd (x * y)"
  by simp

lift_definition divide_double :: "double \<Rightarrow> double \<Rightarrow> double" is "\<lambda>x y. rnd (x / y)"
  by simp

lift_definition inverse_double :: "double \<Rightarrow> double" is "\<lambda>x. rnd (inverse x)"
  by simp

lift_definition less_eq_double :: "double \<Rightarrow> double \<Rightarrow> bool" is "(\<le>)" .

lift_definition less_double :: "double \<Rightarrow> double \<Rightarrow> bool" is "(<)" .

instance ..

end

lift_definition dsqrt :: "double \<Rightarrow> double" is "\<lambda>x. rnd (sqrt x)"
  by simp

section \<open>Data model of \<^verbatim>\<open>skyfield/ephemerislib.py\<close>\<close>

text \<open>
  \<^verbatim>\<open>Segment = namedtuple('Segment', 'center target compute')\<close>.
  Body codes are integers. \<^verbatim>\<open>_center\<close>, \<^verbatim>\<open>_connect\<close> and \<^verbatim>\<open>_tally\<close> only hand the time
  on to \<^verbatim>\<open>compute\<close>, and \<^verbatim>\<open>_tally\<close> only adds and subtracts the values that come
  back, starting from \<^verbatim>\<open>0.0\<close>. So the type \<open>'t\<close> of times and the type \<open>'v\<close> of those
  values are parameters; \<open>'v\<close> has a zero, an addition and a subtraction, of which
  nothing is assumed. With \<open>double\<close> (or vectors of doubles) for \<open>'v\<close> the additions
  round as the machine's do. A property of the tallies that holds only when nothing
  is rounded says so with the predicate \<open>tally_exact\<close> below; the lemmas about exact
  arithmetic behind it ask for the sort \<open>ab_group_add\<close>. The light-time loop of
  \<^verbatim>\<open>Solution.at\<close> computes with times and distances itself: there they are doubles.
\<close>

record ('t, 'v) segment =
  center :: int
  target :: int
  compute :: "'t \<Rightarrow> 'v \<times> 'v"

text \<open>
  The exceptions of the module. \<^verbatim>\<open>ValueError('cannot observe() unless both bodies can be
  referenced to the solar system barycenter')\<close> and \<^verbatim>\<open>ValueError('cannot trace these bodies
  back to a common center')\<close> are \<open>NoCommonCenter\<close>;
  \<^verbatim>\<open>ValueError('observe_from() light-travel time failed to converge')\<close> is
  \<open>LightTimeDivergence\<close>. \<open>IndexError\<close> is what \<^verbatim>\<open>chain[0]\<close> raises on an empty list and
  \<open>TypeError\<close> what \<^verbatim>\<open>+\<close> raises between a list and a tuple. No statement of the module
  raises \<open>UnknownBody\<close> or \<open>MalformedSegmentGraph\<close>.
\<close>

datatype error =
  NoCommonCenter | LightTimeDivergence | IndexError | TypeError
  | UnknownBody | MalformedSegmentGraph

text \<open>
  A segment collection is a Python sequence. A list is a mutable object, identified by
  its address in a store; a tuple is an immutable value.
\<close>

type_synonym addr = nat

datatype ('t, 'v) seq = PyList addr | PyTuple "('t, 'v) segment list"

type_synonym ('t, 'v) store = "addr \<Rightarrow> ('t, 'v) segment list"

definition items :: "('t, 'v) store \<Rightarrow> ('t, 'v) seq \<Rightarrow> ('t, 'v) segment list" where
  "items h s = (case s of PyList a \<Rightarrow> h a | PyTuple xs \<Rightarrow> xs)"

text \<open>\<^verbatim>\<open>a + b\<close>: a new sequence; a list and a tuple cannot be concatenated.\<close>

definition seq_add :: "('t, 'v) store \<Rightarrow> ('t, 'v) seq \<Rightarrow> ('t, 'v) seq \<Rightarrow> error + ('t, 'v) segment list" where
  "seq_add h a b =
     (case (a, b) of
        (PyList x, PyList y) \<Rightarrow> Inr (h x @ h y)
      | (PyTuple xs, PyTuple ys) \<Rightarrow> Inr (xs @ ys)
      | _ \<Rightarrow> Inl TypeError)"

text \<open>
  \<^verbatim>\<open>a += b\<close> on a local name \<open>a\<close>: a list is extended in place (by any iterable) and
  stays the same object; a tuple is rebound to a new tuple.
\<close>

definition seq_iadd :: "('t, 'v) store \<Rightarrow> ('t, 'v) seq \<Rightarrow> ('t, 'v) seq \<Rightarrow> error + (('t, 'v) store \<times> ('t, 'v) seq)" where
  "seq_iadd h a b =
     (case a of
        PyList x \<Rightarrow> Inr (h(x := h x @ items h b), PyList x)
      | PyTuple xs \<Rightarrow>
          (case b of
             PyTuple ys \<Rightarrow> Inr (h, PyTuple (xs @ ys))
           | PyList y \<Rightarrow> Inl TypeError))"

record ('t, 'v) ephemeris =
  eph_segments :: "('t, 'v) seq"
  decode :: "string \<Rightarrow> int"

record ('t, 'v) body =
  ephemeris :: "('t, 'v) ephemeris"
  segments :: "('t, 'v) seq"
  code :: int

text \<open>\<^verbatim>\<open>Body.__init__\<close>: the body shares the segment collection of its ephemeris.\<close>

definition Body :: "('t, 'v) ephemeris \<Rightarrow> int \<Rightarrow> ('t, 'v) body" where
  "Body e c = \<lparr>ephemeris = e, segments = eph_segments e, code = c\<rparr>"

text \<open>The argument of \<^verbatim>\<open>geometry_of\<close> and \<^verbatim>\<open>observe\<close>: a \<^verbatim>\<open>Body\<close>, or a name to decode.\<close>

datatype ('t, 'v) other = IsBody "('t, 'v) body" | IsName string

text \<open>The result classes of \<^verbatim>\<open>positionlib\<close>, as a tag on the result.\<close>

datatype frame = Barycentric | ICRS | Astrometric

record ('t, 'v) icrs =
  cls :: frame
  position :: 'v
  velocity :: 'v
  jd_of :: 't

record 'v observer =
  observer_position :: 'v
  observer_velocity :: 'v
  geocentric :: bool

record ('t, 'v) observed = "('t, 'v) icrs" +
  pos_lighttime :: double
  pos_observer :: "'v observer"

record ('t, 'v) geometry =
  geo_center :: int
  geo_target :: int
  geo_center_chain :: "('t, 'v) segment list"
  geo_target_chain :: "('t, 'v) segment list"

record ('t, 'v) solution =
  sol_center :: int
  sol_target :: int
  sol_center_chain :: "('t, 'v) segment list"
  sol_target_chain :: "('t, 'v) segment list"

section \<open>The functions\<close>

text \<open>
  \<^verbatim>\<open>dict((segment.target, segment) for segment in segments)\<close>: a later segment with the
  same target replaces an earlier one.
\<close>

definition segment_dict :: "('t, 'v) segment list \<Rightarrow> (int \<rightharpoonup> ('t, 'v) segment)" where
  "segment_dict segs = fold (\<lambda>s m. m(target s \<mapsto> s)) segs Map.empty"

text \<open>
  \<^verbatim>\<open>list(_center(code, segment_dict))\<close>: the generator is run to its end. The
  \<^verbatim>\<open>while\<close> loop has no bound, so the walk is a partial function: \<open>None\<close> is a walk that
  never ends.
\<close>

partial_function (option) center_walk ::
  "int \<Rightarrow> (int \<rightharpoonup> ('t, 'v) segment) \<Rightarrow> ('t, 'v) segment list option" where
  "center_walk c d =
     (case d c of
        None \<Rightarrow> Some []
      | Some s \<Rightarrow> Option.bind (center_walk (center s) d) (\<lambda>rest. Some (s # rest)))"

text \<open>\<^verbatim>\<open>_tally\<close>: the two loops over the accumulators \<^verbatim>\<open>position\<close> and \<^verbatim>\<open>velocity\<close>.\<close>

fun tally_minus :: "('t, 'v::minus) segment list \<Rightarrow> 't \<Rightarrow> 'v \<times> 'v \<Rightarrow> 'v \<times> 'v" where
  "tally_minus [] t (pos, vel) = (pos, vel)"
| "tally_minus (s # rest) t (pos, vel) =
     (case compute s t of (p, v) \<Rightarrow> tally_minus rest t (pos - p, vel - v))"

fun tally_plus :: "('t, 'v::plus) segment list \<Rightarrow> 't \<Rightarrow> 'v \<times> 'v \<Rightarrow> 'v \<times> 'v" where
  "tally_plus [] t (pos, vel) = (pos, vel)"
| "tally_plus (s # rest) t (pos, vel) =
     (case compute s t of (p, v) \<Rightarrow> tally_plus rest t (pos + p, vel + v))"

definition tally ::
  "('t, 'v::{zero,plus,minus}) segment list \<Rightarrow> ('t, 'v) segment list \<Rightarrow> 't \<Rightarrow> 'v \<times> 'v" where
  "tally minus_chain plus_chain t = tally_plus plus_chain t (tally_minus minus_chain t (0, 0))"

text \<open>\<^verbatim>\<open>Body.at\<close>. It raises nothing; \<open>None\<close> is a chain walk that never ends.\<close>

definition body_at ::
  "('t, 'v::{zero,plus,minus}) store \<Rightarrow> ('t, 'v) body \<Rightarrow> 't \<Rightarrow> (error + ('t, 'v) icrs) option" where
  "body_at h self t =
     (case center_walk (code self) (segment_dict (items h (segments self))) of
        None \<Rightarrow> None
      | Some w \<Rightarrow>
          (case tally [] (rev w) t of
             (pos, vel) \<Rightarrow>
               Some (Inr \<lparr>cls = Barycentric, position = pos, velocity = vel, jd_of = t\<rparr>)))"

text \<open>
  \<^verbatim>\<open>_connect\<close>, after the two chains are resolved: \<^verbatim>\<open>segments1[0]\<close> and
  \<^verbatim>\<open>segments2[0]\<close> raise on an empty chain, and \<^verbatim>\<open>i\<close> counts every position of the
  zip at which the targets agree.
\<close>

definition connect_chains ::
  "('t, 'v) segment list \<Rightarrow> ('t, 'v) segment list \<Rightarrow> error + (('t, 'v) segment list \<times> ('t, 'v) segment list)" where
  "connect_chains segments1 segments2 =
     (case segments1 of
        [] \<Rightarrow> Inl IndexError
      | s1 # _ \<Rightarrow>
          (case segments2 of
             [] \<Rightarrow> Inl IndexError
           | s2 # _ \<Rightarrow>
               if center s1 \<noteq> center s2 then Inl NoCommonCenter
               else
                 (let n = length (filter (\<lambda>(a, b). target a = target b)
                                    (zip segments1 segments2))
                  in Inr (drop n segments1, drop n segments2))))"

definition connect ::
  "('t, 'v) store \<Rightarrow> ('t, 'v) body \<Rightarrow> ('t, 'v) body \<Rightarrow>
     (error + (('t, 'v) segment list \<times> ('t, 'v) segment list)) option" where
  "connect h body1 body2 =
     (case seq_add h (segments body1) (segments body2) of
        Inl e \<Rightarrow> Some (Inl e)
      | Inr every \<Rightarrow>
          (case center_walk (code body1) (segment_dict every) of
             None \<Rightarrow> None
           | Some w1 \<Rightarrow>
               (case center_walk (code body2) (segment_dict every) of
                  None \<Rightarrow> None
                | Some w2 \<Rightarrow> Some (connect_chains (rev w1) (rev w2)))))"

text \<open>\<^verbatim>\<open>Body.geometry_of\<close>.\<close>

definition geometry_of ::
  "('t, 'v) store \<Rightarrow> ('t, 'v) body \<Rightarrow> ('t, 'v) other \<Rightarrow> (error + ('t, 'v) geometry) option" where
  "geometry_of h self other =
     (let b = (case other of
                 IsBody b' \<Rightarrow> b'
               | IsName name \<Rightarrow> Body (ephemeris self) (decode (ephemeris self) name))
      in case connect h self b of
           None \<Rightarrow> None
         | Some (Inl e) \<Rightarrow> Some (Inl e)
         | Some (Inr (center_chain, target_chain)) \<Rightarrow>
             Some (Inr \<lparr>geo_center = code self, geo_target = code b,
                        geo_center_chain = center_chain,
                        geo_target_chain = target_chain\<rparr>))"

text \<open>\<^verbatim>\<open>Geometry.at\<close>.\<close>

definition geometry_at :: "('t, 'v::{zero,plus,minus}) geometry \<Rightarrow> 't \<Rightarrow> ('t, 'v) icrs" where
  "geometry_at self t =
     (case tally (geo_center_chain self) (geo_target_chain self) t of
        (pos, vel) \<Rightarrow>
          \<lparr>cls = (if geo_center self = 0 then Barycentric else ICRS),
           position = pos, velocity = vel, jd_of = t\<rparr>)"

text \<open>
  \<^verbatim>\<open>Body.observe\<close>, from the point where \<^verbatim>\<open>segments\<close> and \<^verbatim>\<open>target\<close> are bound.
  The chained comparison reads \<^verbatim>\<open>center_chain[0]\<close> first, then \<^verbatim>\<open>target_chain[0]\<close>.
\<close>

definition observe_chains ::
  "('t, 'v) segment list \<Rightarrow> int \<Rightarrow> int \<Rightarrow> (error + ('t, 'v) solution) option" where
  "observe_chains segs c tg =
     (case center_walk c (segment_dict segs) of
        None \<Rightarrow> None
      | Some w1 \<Rightarrow>
          (case center_walk tg (segment_dict segs) of
             None \<Rightarrow> None
           | Some w2 \<Rightarrow>
               Some
                 (case rev w1 of
                    [] \<Rightarrow> Inl IndexError
                  | s1 # _ \<Rightarrow>
                      (case rev w2 of
                         [] \<Rightarrow> Inl IndexError
                       | s2 # _ \<Rightarrow>
                           if \<not> (center s1 = center s2 \<and> center s2 = 0)
                           then Inl NoCommonCenter
                           else Inr \<lparr>sol_center = c, sol_target = tg,
                                     sol_center_chain = rev w1,
                                     sol_target_chain = rev w2\<rparr>))))"

text \<open>
  \<^verbatim>\<open>Body.observe\<close>. \<^verbatim>\<open>segments = self.segments\<close> binds the local name to the body's
  own collection, so \<^verbatim>\<open>segments += body.segments\<close> is an update of the store when that
  collection is a list. The store after the call is returned with the result.
\<close>

definition observe ::
  "('t, 'v) store \<Rightarrow> ('t, 'v) body \<Rightarrow> ('t, 'v) other \<Rightarrow> (('t, 'v) store \<times> (error + ('t, 'v) solution)) option" where
  "observe h self other =
     (case other of
        IsBody b \<Rightarrow>
          (case seq_iadd h (segments self) (segments b) of
             Inl e \<Rightarrow> Some (h, Inl e)
           | Inr (h', segs) \<Rightarrow>
               map_option (Pair h') (observe_chains (items h' segs) (code self) (code b)))
      | IsName name \<Rightarrow>
          map_option (Pair h)
            (observe_chains (items h (segments self)) (code self)
               (decode (ephemeris self) name)))"

text \<open>
  The light-time loop of \<^verbatim>\<open>Solution.at\<close>. \<^verbatim>\<open>length_of\<close> (module \<^verbatim>\<open>functions\<close>) and
  \<^verbatim>\<open>C_AUDAY\<close> (module \<^verbatim>\<open>constants\<close>) are not part of the sources at hand and are
  parameters. The time is a scalar, so \<^verbatim>\<open>min(delta)\<close> and \<^verbatim>\<open>max(delta)\<close> are
  \<^verbatim>\<open>delta\<close>. Times, distances and light times are doubles, and \<^verbatim>\<open>/\<close>, \<^verbatim>\<open>-\<close> and
  \<^verbatim>\<open><\<close> are those of doubles. The state holds the local variables of the loop;
  \<open>tallied\<close> is a record of the calls of \<^verbatim>\<open>_tally\<close> so far (which chain, at which time),
  kept for the proofs.
\<close>

datatype chain_role = CenterChain | TargetChain

record 'v lt_state =
  pass_i :: nat
  tposition :: 'v
  tvelocity :: 'v
  distance :: double
  lighttime0 :: double
  lighttime :: double
  tallied :: "(chain_role \<times> double) list"

text \<open>
  \<^verbatim>\<open>-1e-12 < min(delta) and max(delta) < 1e-12\<close>; the literal \<^verbatim>\<open>1e-12\<close> is the double
  nearest to \<open>1 / 10 ^ 12\<close>.
\<close>

definition converged :: "double \<Rightarrow> bool" where
  "converged delta \<longleftrightarrow>
     - dbl (1 / 1000000000000) < delta \<and> delta < dbl (1 / 1000000000000)"

text \<open>One pass that does not break: the target chain is tallied again.\<close>

definition retally ::
  "('v::{zero,plus,minus} \<Rightarrow> double) \<Rightarrow> (double, 'v) segment list \<Rightarrow> 'v \<Rightarrow> double \<Rightarrow> double \<Rightarrow>
     'v lt_state \<Rightarrow> 'v lt_state" where
  "retally length_of target_chain cposition jd_tdb lt st =
     (case tally [] target_chain (jd_tdb - lt) of
        (tp, tv) \<Rightarrow>
          st\<lparr>tposition := tp, tvelocity := tv,
             distance := length_of (tp - cposition),
             lighttime0 := lt,
             tallied := tallied st @ [(TargetChain, jd_tdb - lt)]\<rparr>)"

text \<open>
  \<^verbatim>\<open>for i in range(10): ... else: raise\<close>. The result is \<open>True\<close> with the state at the
  \<^verbatim>\<open>break\<close>, or \<open>False\<close> when the range is used up (the \<^verbatim>\<open>else\<close> branch).
\<close>

fun light_loop ::
  "('v::{zero,plus,minus} \<Rightarrow> double) \<Rightarrow> double \<Rightarrow> (double, 'v) segment list \<Rightarrow> 'v \<Rightarrow> double \<Rightarrow>
     nat list \<Rightarrow> 'v lt_state \<Rightarrow> bool \<times> 'v lt_state" where
  "light_loop length_of C_AUDAY target_chain cposition jd_tdb [] st = (False, st)"
| "light_loop length_of C_AUDAY target_chain cposition jd_tdb (k # ks) st =
     (let lt = distance st / C_AUDAY;
          delta = lt - lighttime0 st;
          st1 = st\<lparr>pass_i := k, lighttime := lt\<rparr>
      in if converged delta then (True, st1)
         else light_loop length_of C_AUDAY target_chain cposition jd_tdb ks
                (retally length_of target_chain cposition jd_tdb lt st1))"

text \<open>
  The state before the loop: both chains tallied at the nominal time. \<^verbatim>\<open>i\<close> and
  \<^verbatim>\<open>lighttime\<close> are not yet bound there; the state holds 0 for them.
\<close>

definition initial_state ::
  "('v::{zero,plus,minus} \<Rightarrow> double) \<Rightarrow> (double, 'v) solution \<Rightarrow> double \<Rightarrow> 'v lt_state" where
  "initial_state length_of self t =
     (case tally [] (sol_center_chain self) t of
        (cposition, cvelocity) \<Rightarrow>
          (case tally [] (sol_target_chain self) t of
             (tp, tv) \<Rightarrow>
               \<lparr>pass_i = 0, tposition = tp, tvelocity = tv,
                distance = length_of (tp - cposition),
                lighttime0 = 0, lighttime = 0,
                tallied = [(CenterChain, t), (TargetChain, t)]\<rparr>))"

definition solution_loop ::
  "('v::{zero,plus,minus} \<Rightarrow> double) \<Rightarrow> double \<Rightarrow> (double, 'v) solution \<Rightarrow> double \<Rightarrow>
     bool \<times> 'v lt_state" where
  "solution_loop length_of C_AUDAY self t =
     light_loop length_of C_AUDAY (sol_target_chain self)
       (fst (tally [] (sol_center_chain self) t)) t [0..<10]
       (initial_state length_of self t)"

text \<open>
  \<^verbatim>\<open>Solution.at\<close>. Body codes are integers, which have no \<^verbatim>\<open>_altaz_rotation\<close>, so the
  last \<^verbatim>\<open>if\<close> of the method adds nothing.
\<close>

definition solution_at ::
  "('v::{zero,plus,minus} \<Rightarrow> double) \<Rightarrow> double \<Rightarrow> (double, 'v) solution \<Rightarrow> double \<Rightarrow>
     error + (double, 'v) observed" where
  "solution_at length_of C_AUDAY self t =
     (case tally [] (sol_center_chain self) t of
        (cposition, cvelocity) \<Rightarrow>
          (case solution_loop length_of C_AUDAY self t of
             (False, st) \<Rightarrow> Inl LightTimeDivergence
           | (True, st) \<Rightarrow>
               Inr \<lparr>cls = (if sol_center self = 0 then Barycentric else Astrometric),
                    position = tposition st - cposition,
                    velocity = tvelocity st - cvelocity,
                    jd_of = t,
                    pos_lighttime = lighttime st,
                    pos_observer =
                      \<lparr>observer_position = cposition, observer_velocity = cvelocity,
                       geocentric = False\<rparr>\<rparr>))"

section \<open>Notions used in the proofs\<close>

text \<open>Every entry of a segment dictionary is stored under the target of its segment.\<close>

definition keyed :: "(int \<rightharpoonup> ('t, 'v) segment) \<Rightarrow> bool" where
  "keyed d \<longleftrightarrow> (\<forall>k s. d k = Some s \<longrightarrow> target s = k)"

text \<open>
  Two root-first chains agree up to every position at which their targets agree.
\<close>

definition agree_prefix :: "('t, 'v) segment list \<Rightarrow> ('t, 'v) segment list \<Rightarrow> bool" where
  "agree_prefix xs ys \<longleftrightarrow>
     (\<forall>j. j < length xs \<and> j < length ys \<and> target (xs ! j) = target (ys ! j)
          \<longrightarrow> take (Suc j) xs = take (Suc j) ys)"

section \<open>Concrete scenarios and further notions\<close>

text \<open>The two segments of the specification's scenario, over vectors of three reals.\<close>

definition S1 :: "(real, real \<times> real \<times> real) segment" where
  "S1 = \<lparr>center = 0, target = 3, compute = (\<lambda>t. ((t, 0, 0), (1, 0, 0)))\<rparr>"

definition S2 :: "(real, real \<times> real \<times> real) segment" where
  "S2 = \<lparr>center = 3, target = 399, compute = (\<lambda>t. ((0, 1, 0), (0, 0, 0)))\<rparr>"

text \<open>An ephemeris whose segments are the list at address 0 of the store \<open>scenario_store\<close>.\<close>

definition scenario_store :: "(real, real \<times> real \<times> real) store" where
  "scenario_store = (\<lambda>_. [])(0 := [S1, S2])"

definition scenario_ephemeris :: "(real, real \<times> real \<times> real) ephemeris" where
  "scenario_ephemeris = \<lparr>eph_segments = PyList 0, decode = (\<lambda>_. 0)\<rparr>"

text \<open>
  The test of one pass of the light-time loop on a state, and the state after the
  passes \<open>ks\<close> when none of them breaks.
\<close>

definition accepts :: "double \<Rightarrow> 'v lt_state \<Rightarrow> bool" where
  "accepts C_AUDAY st \<longleftrightarrow> converged (distance st / C_AUDAY - lighttime0 st)"

fun after_passes ::
  "('v::{zero,plus,minus} \<Rightarrow> double) \<Rightarrow> double \<Rightarrow> (double, 'v) segment list \<Rightarrow> 'v \<Rightarrow> double \<Rightarrow>
     nat list \<Rightarrow> 'v lt_state \<Rightarrow> 'v lt_state" where
  "after_passes length_of C_AUDAY target_chain cposition jd_tdb [] st = st"
| "after_passes length_of C_AUDAY target_chain cposition jd_tdb (k # ks) st =
     after_passes length_of C_AUDAY target_chain cposition jd_tdb ks
       (retally length_of target_chain cposition jd_tdb (distance st / C_AUDAY)
          (st\<lparr>pass_i := k, lighttime := distance st / C_AUDAY\<rparr>))"

text \<open>
  The state of \<^verbatim>\<open>Solution.at\<close> on entry to pass \<open>n\<close> of its loop (counted from 0),
  when no earlier pass has left the loop.
\<close>

definition pass_state ::
  "('v::{zero,plus,minus} \<Rightarrow> double) \<Rightarrow> double \<Rightarrow> (double, 'v) solution \<Rightarrow> double \<Rightarrow> nat \<Rightarrow>
     'v lt_state" where
  "pass_state length_of C_AUDAY self t n =
     after_passes length_of C_AUDAY (sol_target_chain self)
       (fst (tally [] (sol_center_chain self) t)) t [0..<n]
       (initial_state length_of self t)"

text \<open>
  Modelled from the spec: \<^verbatim>\<open>length_of\<close> of the module \<^verbatim>\<open>functions\<close>, which is not
  among the sources: the length \<open>|v|\<close> of a vector of three doubles, the square root of
  the sum of the squares, each operation rounded.
\<close>

definition euclid_length :: "double \<times> double \<times> double \<Rightarrow> double" where
  "euclid_length v = (case v of (x, y, z) \<Rightarrow> dsqrt (x * x + y * y + z * z))"

text \<open>
  Modelled from the spec: \<^verbatim>\<open>C_AUDAY\<close> of the module \<^verbatim>\<open>constants\<close>, which is not
  among the sources: the speed of light in the units of the segments, astronomical
  units per day, as the literal \<^verbatim>\<open>173.1446326846693\<close>.
\<close>

definition c_auday :: double where
  "c_auday = dbl (1731446326846693 / 10000000000000)"

text \<open>
  A target whose distance from the observer oscillates: it is 4 units away at the times
  between \<open>319 / 64\<close> and 5, and 1 unit away at any other time. The observer rests at
  the origin.
\<close>

definition origin_seg :: "(double, double \<times> double \<times> double) segment" where
  "origin_seg = \<lparr>center = 0, target = 399, compute = (\<lambda>t. ((0, 0, 0), (0, 0, 0)))\<rparr>"

definition wobble :: "(double, double \<times> double \<times> double) segment" where
  "wobble = \<lparr>center = 0, target = 5,
     compute = (\<lambda>t. if dbl (319 / 64) < t \<and> t < dbl 5 then ((dbl 4, 0, 0), (0, 0, 0))
                     else ((dbl 1, 0, 0), (0, 0, 0)))\<rparr>"

definition wobble_solution :: "(double, double \<times> double \<times> double) solution" where
  "wobble_solution = \<lparr>sol_center = 399, sol_target = 5,
     sol_center_chain = [origin_seg], sol_target_chain = [wobble]\<rparr>"

text \<open>A chain is stationary when no segment of it depends on the time.\<close>

definition stationary :: "('t, 'v) segment list \<Rightarrow> bool" where
  "stationary chain \<longleftrightarrow> (\<forall>s \<in> set chain. \<forall>t t'. compute s t = compute s t')"

text \<open>
  What holds of the loop state of \<^verbatim>\<open>Solution.at\<close> throughout: the distance is measured
  from the center position \<open>cp\<close>, the target values are those of the target chain at the
  time delayed by \<^verbatim>\<open>lighttime0\<close>, and the center chain was tallied once, at \<open>t\<close>.
\<close>

definition loop_inv ::
  "('v::{zero,plus,minus} \<Rightarrow> double) \<Rightarrow> (double, 'v) segment list \<Rightarrow> 'v \<Rightarrow> double \<Rightarrow> 'v lt_state \<Rightarrow>
     bool" where
  "loop_inv length_of target_chain cp t st \<longleftrightarrow>
     distance st = length_of (tposition st - cp) \<and>
     (tposition st, tvelocity st) = tally [] target_chain (t - lighttime0 st) \<and>
     filter (\<lambda>e. fst e = CenterChain) (tallied st) = [(CenterChain, t)]"

text \<open>
  Stationary scenarios: an observer at the origin with a target one unit away
  (\<open>far_solution\<close>) and with a target \<open>1 / 2 ^ 40\<close> units away (\<open>near_solution\<close>); and
  the first of them with an observer that moves but is at the origin at time 5
  (\<open>drifting_solution\<close>).
\<close>

definition far_seg :: "(double, double \<times> double \<times> double) segment" where
  "far_seg = \<lparr>center = 0, target = 5, compute = (\<lambda>t. ((dbl 1, 0, 0), (0, 0, 0)))\<rparr>"

definition near_seg :: "(double, double \<times> double \<times> double) segment" where
  "near_seg = \<lparr>center = 0, target = 5,
     compute = (\<lambda>t. ((dbl (1 / 1099511627776), 0, 0), (0, 0, 0)))\<rparr>"

definition drifting_seg :: "(double, double \<times> double \<times> double) segment" where
  "drifting_seg = \<lparr>center = 0, target = 399,
     compute = (\<lambda>t. ((t - dbl 5, 0, 0), (0, 0, 0)))\<rparr>"

definition far_solution :: "(double, double \<times> double \<times> double) solution" where
  "far_solution = \<lparr>sol_center = 399, sol_target = 5,
     sol_center_chain = [origin_seg], sol_target_chain = [far_seg]\<rparr>"


definition drifting_solution :: "(double, double \<times> double \<times> double) solution" where
  "drifting_solution = \<lparr>sol_center = 399, sol_target = 5,
     sol_center_chain = [drifting_seg], sol_target_chain = [far_seg]\<rparr>"

text \<open>
  The identifier reached from \<open>c\<close> after \<open>n\<close> lookups in the dictionary, if there are that
  many; and a cycle that the walk from \<open>c\<close> runs into.
\<close>

fun steps :: "(int \<rightharpoonup> ('t, 'v) segment) \<Rightarrow> nat \<Rightarrow> int \<Rightarrow> int option" where
  "steps d 0 c = Some c"
| "steps d (Suc n) c = (case d c of None \<Rightarrow> None | Some s \<Rightarrow> steps d n (center s))"

definition cycle_reachable :: "(int \<rightharpoonup> ('t, 'v) segment) \<Rightarrow> int \<Rightarrow> bool" where
  "cycle_reachable d c \<longleftrightarrow> (\<exists>k n c'. steps d k c = Some c' \<and> 0 < n \<and> steps d n c' = Some c')"

text \<open>The identifier at which a resolved chain of the body \<open>c\<close> ends: its root.\<close>

definition chain_root :: "int \<Rightarrow> ('t, 'v) segment list \<Rightarrow> int" where
  "chain_root c w = (case rev w of [] \<Rightarrow> c | s # _ \<Rightarrow> center s)"

text \<open>Two segments that refer to each other, and a body in that cycle.\<close>

definition cyc_a :: "(real, real \<times> real \<times> real) segment" where
  "cyc_a = \<lparr>center = 2, target = 1, compute = (\<lambda>t. ((1, 0, 0), (0, 0, 0)))\<rparr>"

definition cyc_b :: "(real, real \<times> real \<times> real) segment" where
  "cyc_b = \<lparr>center = 1, target = 2, compute = (\<lambda>t. ((0, 1, 0), (0, 0, 0)))\<rparr>"

definition cyc_store :: "(real, real \<times> real \<times> real) store" where
  "cyc_store = (\<lambda>_. [])(0 := [cyc_a, cyc_b])"

definition cyc_ephemeris :: "(real, real \<times> real \<times> real) ephemeris" where
  "cyc_ephemeris = \<lparr>eph_segments = PyList 0, decode = (\<lambda>_. 0)\<rparr>"

text \<open>An ephemeris with the segment S2 alone, as a tuple: its chains end at body 3.\<close>

definition rootless_ephemeris :: "(real, real \<times> real \<times> real) ephemeris" where
  "rootless_ephemeris = \<lparr>eph_segments = PyTuple [S2], decode = (\<lambda>_. 0)\<rparr>"

text \<open>
  Three segments over vectors of doubles, with the positions 0.1, 0.2 and 0.3 on the
  first axis: body 3 from the barycenter, body 399 from body 3, body 301 from body 399.
  The first two are the list at address 0 of \<open>rounding_store\<close>.
\<close>

definition seg_tenth :: "(double, double \<times> double \<times> double) segment" where
  "seg_tenth = \<lparr>center = 0, target = 3,
     compute = (\<lambda>t. ((dbl (1 / 10), 0, 0), (0, 0, 0)))\<rparr>"

definition seg_fifth :: "(double, double \<times> double \<times> double) segment" where
  "seg_fifth = \<lparr>center = 3, target = 399,
     compute = (\<lambda>t. ((dbl (1 / 5), 0, 0), (0, 0, 0)))\<rparr>"

definition seg_three_tenths :: "(double, double \<times> double \<times> double) segment" where
  "seg_three_tenths = \<lparr>center = 399, target = 301,
     compute = (\<lambda>t. ((dbl (3 / 10), 0, 0), (0, 0, 0)))\<rparr>"

definition rounding_store :: "(double, double \<times> double \<times> double) store" where
  "rounding_store = (\<lambda>_. [])(0 := [seg_tenth, seg_fifth])"

definition rounding_ephemeris :: "(double, double \<times> double \<times> double) ephemeris" where
  "rounding_ephemeris = \<lparr>eph_segments = PyList 0, decode = (\<lambda>_. 0)\<rparr>"

text \<open>
  The scenario of the specification once more, over vectors of doubles: the positions
  and velocities are the doubles 0 and 1 and the time itself.
\<close>

definition S1_double :: "(double, double \<times> double \<times> double) segment" where
  "S1_double = \<lparr>center = 0, target = 3, compute = (\<lambda>t. ((t, 0, 0), (dbl 1, 0, 0)))\<rparr>"

definition S2_double :: "(double, double \<times> double \<times> double) segment" where
  "S2_double = \<lparr>center = 3, target = 399, compute = (\<lambda>t. ((0, dbl 1, 0), (0, 0, 0)))\<rparr>"

definition double_store :: "(double, double \<times> double \<times> double) store" where
  "double_store = (\<lambda>_. [])(0 := [S1_double, S2_double])"

definition double_ephemeris :: "(double, double \<times> double \<times> double) ephemeris" where
  "double_ephemeris = \<lparr>eph_segments = PyList 0, decode = (\<lambda>_. 0)\<rparr>"

text \<open>
  Exactness of double arithmetic. \<open>vval\<close> is the value of a vector of doubles as a
  vector of reals. An addition or a subtraction of two vectors of doubles is exact when
  no component is rounded: the value of the result is the sum or the difference of the
  values. \<open>tally_minus_exact\<close> and \<open>tally_plus_exact\<close> follow the two loops of \<^verbatim>\<open>_tally\<close>
  and say that each \<^verbatim>\<open>-=\<close> and each \<^verbatim>\<open>+=\<close> on the accumulators is exact; \<open>tally_exact\<close>
  says so of the whole call \<^verbatim>\<open>_tally(minus_chain, plus_chain, t)\<close>.
\<close>

definition vval :: "double \<times> double \<times> double \<Rightarrow> real \<times> real \<times> real" where
  "vval v = (case v of (x, y, z) \<Rightarrow> (val x, val y, val z))"

definition exact_add :: "double \<times> double \<times> double \<Rightarrow> double \<times> double \<times> double \<Rightarrow> bool" where
  "exact_add a b \<longleftrightarrow> vval (a + b) = vval a + vval b"

definition exact_sub :: "double \<times> double \<times> double \<Rightarrow> double \<times> double \<times> double \<Rightarrow> bool" where
  "exact_sub a b \<longleftrightarrow> vval (a - b) = vval a - vval b"

fun tally_minus_exact ::
  "('t, double \<times> double \<times> double) segment list \<Rightarrow> 't \<Rightarrow>
   (double \<times> double \<times> double) \<times> (double \<times> double \<times> double) \<Rightarrow> bool" where
  "tally_minus_exact [] t (pos, vel) = True"
| "tally_minus_exact (s # rest) t (pos, vel) =
     (case compute s t of (p, v) \<Rightarrow>
        exact_sub pos p \<and> exact_sub vel v \<and> tally_minus_exact rest t (pos - p, vel - v))"

fun tally_plus_exact ::
  "('t, double \<times> double \<times> double) segment list \<Rightarrow> 't \<Rightarrow>
   (double \<times> double \<times> double) \<times> (double \<times> double \<times> double) \<Rightarrow> bool" where
  "tally_plus_exact [] t (pos, vel) = True"
| "tally_plus_exact (s # rest) t (pos, vel) =
     (case compute s t of (p, v) \<Rightarrow>
        exact_add pos p \<and> exact_add vel v \<and> tally_plus_exact rest t (pos + p, vel + v))"

definition tally_exact ::
  "('t, double \<times> double \<times> double) segment list \<Rightarrow>
   ('t, double \<times> double \<times> double) segment list \<Rightarrow> 't \<Rightarrow> bool" where
  "tally_exact minus_chain plus_chain t \<longleftrightarrow>
     tally_minus_exact minus_chain t (0, 0) \<and>
     tally_plus_exact plus_chain t (tally_minus minus_chain t (0, 0))"

text \<open>
  The values of a pair of position and velocity, and a segment whose \<^verbatim>\<open>compute\<close> returns
  the values as reals: on it the tally is the sum in exact arithmetic.
\<close>

definition pval ::
  "(double \<times> double \<times> double) \<times> (double \<times> double \<times> double) \<Rightarrow>
   (real \<times> real \<times> real) \<times> (real \<times> real \<times> real)" where
  "pval a = (vval (fst a), vval (snd a))"

definition exact_seg ::
  "('t, double \<times> double \<times> double) segment \<Rightarrow> ('t, real \<times> real \<times> real) segment" where
  "exact_seg s = \<lparr>center = center s, target = target s, compute = (\<lambda>t. pval (compute s t))\<rparr>"

section \<open>Properties\<close>

subsection \<open>Rounding\<close>

lemma powr_powi: "(2::real) powr real_of_int k = 2 powi k"
  by (simp add: powr_real_of_int power_int_def power_one_over inverse_eq_divide)

lemma floor_log2:
  assumes "x \<noteq> 0" "2 powi k \<le> \<bar>x\<bar>" "\<bar>x\<bar> < 2 powi (k + 1)"
  shows "\<lfloor>log 2 \<bar>x\<bar>\<rfloor> = k"
proof -
  have "0 < \<bar>x\<bar>" using assms(1) by simp
  then show ?thesis
    using assms(2,3) floor_log_eq_powr_iff [of "\<bar>x\<bar>" 2 k]
    by (simp add: powr_powi [symmetric] add.commute)
qed

lemma expo_eval:
  assumes "x \<noteq> 0" "2 powi (e + 52) \<le> \<bar>x\<bar>" "\<bar>x\<bar> < 2 powi (e + 53)" "- 1074 \<le> e"
  shows "expo x = e"
proof -
  have "\<lfloor>log 2 \<bar>x\<bar>\<rfloor> = e + 52"
    using floor_log2 [OF assms(1), of "e + 52"] assms(2,3) by (simp add: add.commute add.left_commute)
  then show ?thesis using assms(4) by (simp add: expo_def)
qed

lemma rnd_eval:
  assumes "x \<noteq> 0" "2 powi (e + 52) \<le> \<bar>x\<bar>" "\<bar>x\<bar> < 2 powi (e + 53)" "- 1074 \<le> e"
  shows "rnd x = of_int (round_even (x / 2 powi e)) * 2 powi e"
  using expo_eval [OF assms] assms(1) by (simp add: rnd_def)

lemma round_even_of_int: "round_even (of_int m) = m"
  by (simp add: round_even_def)

lemma round_even_ge: "of_int a \<le> y \<Longrightarrow> a \<le> round_even y"
proof -
  assume "of_int a \<le> y"
  then have "a \<le> \<lfloor>y\<rfloor>" by (simp add: le_floor_iff)
  then show ?thesis by (auto simp: round_even_def Let_def)
qed

lemma round_even_le: "y \<le> of_int b \<Longrightarrow> round_even y \<le> b"
proof -
  assume b: "y \<le> of_int b"
  then have f: "\<lfloor>y\<rfloor> \<le> b" by (simp add: floor_le_iff)
  show ?thesis
  proof (cases "y = of_int \<lfloor>y\<rfloor>")
    case True
    then have "round_even y = \<lfloor>y\<rfloor>" by (simp add: round_even_def Let_def)
    with f show ?thesis by simp
  next
    case False
    then have "of_int \<lfloor>y\<rfloor> < y" using of_int_floor_le [of y] by linarith
    then have "of_int \<lfloor>y\<rfloor> < (of_int b :: real)" using b by linarith
    then have "\<lfloor>y\<rfloor> < b" by simp
    then show ?thesis by (auto simp: round_even_def Let_def)
  qed
qed

lemma log2_bounds:
  assumes "x \<noteq> 0"
  shows "2 powi \<lfloor>log 2 \<bar>x\<bar>\<rfloor> \<le> \<bar>x\<bar> \<and> \<bar>x\<bar> < 2 powi (\<lfloor>log 2 \<bar>x\<bar>\<rfloor> + 1)"
proof -
  have "0 < \<bar>x\<bar>" using assms by simp
  then show ?thesis
    using floor_log_eq_powr_iff [of "\<bar>x\<bar>" 2 "\<lfloor>log 2 \<bar>x\<bar>\<rfloor>"]
    by (simp add: powr_powi [symmetric] add.commute)
qed

lemma expo_sub:
  assumes "x \<noteq> 0" "\<bar>x\<bar> < 2 powi (- 1021)"
  shows "expo x = - 1074"
proof -
  have lt: "2 powi \<lfloor>log 2 \<bar>x\<bar>\<rfloor> < (2::real) powi (- 1021)"
    using log2_bounds [OF assms(1)] assms(2) by linarith
  have "\<lfloor>log 2 \<bar>x\<bar>\<rfloor> < - 1021"
  proof (rule ccontr)
    assume "\<not> \<lfloor>log 2 \<bar>x\<bar>\<rfloor> < - 1021"
    then have "- 1021 \<le> \<lfloor>log 2 \<bar>x\<bar>\<rfloor>" by simp
    then have "(2::real) powi (- 1021) \<le> 2 powi \<lfloor>log 2 \<bar>x\<bar>\<rfloor>"
      by (rule power_int_increasing) simp
    with lt show False by simp
  qed
  then have "\<lfloor>log 2 \<bar>x\<bar>\<rfloor> - 52 \<le> - 1074" by linarith
  then show ?thesis unfolding expo_def by (rule max_absorb2)
qed

lemma powi_split: "(2::real) powi (a + b) = 2 powi a * 2 powi b"
  by (simp add: power_int_add)

lemma rnd_rnd: "rnd (rnd x) = rnd x"
proof (cases "x = 0")
  case True
  then show ?thesis by (simp add: rnd_def)
next
  case x: False
  define e where "e = expo x"
  define m where "m = round_even (x / 2 powi e)"
  define y where "y = of_int m * (2::real) powi e"
  have y: "rnd x = y" using x by (simp add: rnd_def e_def m_def y_def)
  have p: "(0::real) < 2 powi e" by simp
  show ?thesis
  proof (cases "m = 0")
    case True
    then have "y = 0" by (simp add: y_def)
    then have "rnd y = y" by (simp add: rnd_def)
    then show ?thesis by (simp add: y)
  next
    case m: False
    then have y0: "y \<noteq> 0" by (simp add: y_def)
    have ay: "\<bar>y\<bar> = of_int \<bar>m\<bar> * 2 powi e" by (simp add: y_def abs_mult)
    have quot: "y / 2 powi e = of_int m" by (simp add: y_def)
    have yv: "of_int m * 2 powi e = y" by (simp add: y_def)
    define k where "k = \<lfloor>log 2 \<bar>x\<bar>\<rfloor>"
    have kb: "2 powi k \<le> \<bar>x\<bar>" "\<bar>x\<bar> < 2 powi (k + 1)"
      using log2_bounds [OF x] by (simp_all add: k_def)
    have e: "e = max (k - 52) (- 1074)" by (simp add: e_def expo_def k_def)
    have hi: "\<bar>x\<bar> / 2 powi e < 2 ^ 53"
    proof -
      have "k + 1 \<le> e + 53" using e by simp
      then have "(2::real) powi (k + 1) \<le> 2 powi (e + 53)"
        by (simp add: power_int_increasing)
      then have "\<bar>x\<bar> < 2 powi (e + 53)" using kb(2) by linarith
      then have "\<bar>x\<bar> < 2 powi e * 2 ^ 53" by (simp add: powi_split)
      then show ?thesis using p by (simp add: field_simps)
    qed
    have mhi: "\<bar>m\<bar> \<le> 2 ^ 53"
    proof -
      have "x / 2 powi e \<le> of_int (2 ^ 53)"
        using hi p by (simp add: field_simps abs_if split: if_splits)
      then have 1: "m \<le> 2 ^ 53" unfolding m_def by (rule round_even_le)
      have "of_int (- (2 ^ 53)) \<le> x / 2 powi e"
        using hi p by (simp add: field_simps abs_if split: if_splits)
      then have "- (2 ^ 53) \<le> m" unfolding m_def by (rule round_even_ge)
      with 1 show ?thesis by simp
    qed
    show ?thesis
    proof (cases "k - 52 < - 1074")
      case sub: True
      then have e1074: "e = - 1074" using e by simp
      have "\<bar>x\<bar> / 2 powi e < 2 ^ 52"
      proof -
        have "k + 1 \<le> e + 52" using sub e1074 by simp
        then have "(2::real) powi (k + 1) \<le> 2 powi (e + 52)"
          by (simp add: power_int_increasing)
        then have "\<bar>x\<bar> < 2 powi (e + 52)" using kb(2) by linarith
        then have "\<bar>x\<bar> < 2 powi e * 2 ^ 52" by (simp add: powi_split)
        then show ?thesis using p by (simp add: field_simps)
      qed
      then have "x / 2 powi e \<le> of_int (2 ^ 52)" "of_int (- (2 ^ 52)) \<le> x / 2 powi e"
        using p by (simp_all add: field_simps abs_if split: if_splits)
      then have "m \<le> 2 ^ 52" "- (2 ^ 52) \<le> m"
        unfolding m_def by (auto intro: round_even_le round_even_ge)
      then have "\<bar>m\<bar> \<le> 2 ^ 52" by simp
      then have "(of_int \<bar>m\<bar> :: real) \<le> 2 ^ 52" by (metis of_int_le_iff of_int_numeral of_int_power)
      then have "\<bar>y\<bar> \<le> 2 ^ 52 * 2 powi e" using p by (simp add: ay)
      also have "\<dots> = 2 powi (- 1022)" by (simp add: e1074 power_int_def field_simps flip: power_add)
      also have "\<dots> < (2::real) powi (- 1021)" by (simp add: power_int_strict_increasing)
      finally have "expo y = - 1074" by (rule expo_sub [OF y0])
      then have "expo y = e" by (simp add: e1074)
      then have "rnd y = y"
        using y0 by (simp add: rnd_def quot round_even_of_int yv)
      then show ?thesis by (simp add: y)
    next
      case False
      then have ek: "e = k - 52" "- 1074 \<le> e" using e by simp_all
      have lo: "2 ^ 52 \<le> \<bar>x\<bar> / 2 powi e"
      proof -
        have "(2::real) powi k = 2 powi e * 2 ^ 52"
          using powi_split [of e 52] by (simp add: ek)
        then show ?thesis using kb(1) p by (simp add: field_simps)
      qed
      have mlo: "2 ^ 52 \<le> \<bar>m\<bar>"
      proof (cases "0 \<le> x")
        case True
        then have "of_int (2 ^ 52) \<le> x / 2 powi e" using lo by simp
        then have "2 ^ 52 \<le> m" unfolding m_def by (rule round_even_ge)
        then show ?thesis by simp
      next
        case False
        then have "x / 2 powi e \<le> of_int (- (2 ^ 52))" using lo p by (simp add: field_simps)
        then have "m \<le> - (2 ^ 52)" unfolding m_def by (rule round_even_le)
        then show ?thesis by simp
      qed
      show ?thesis
      proof (cases "\<bar>m\<bar> = 2 ^ 53")
        case True
        then have ay53: "\<bar>y\<bar> = 2 powi (e + 53)" by (simp add: ay powi_split mult.commute)
        have "expo y = e + 1"
          by (rule expo_eval [OF y0]) (use ek in \<open>simp_all add: ay53 add.assoc power_int_strict_increasing\<close>)
        moreover have "y / 2 powi (e + 1) = of_int (m div 2)"
        proof -
          have "even m" using True by (metis even_abs_add_iff even_add even_numeral even_power zero_less_numeral)
          then obtain h where h: "m = 2 * h" by (auto elim: evenE)
          then show ?thesis by (simp add: y_def powi_split)
        qed
        moreover have "of_int (m div 2) * (2::real) powi (e + 1) = y"
        proof -
          have "even m" using True by (metis even_abs_add_iff even_add even_numeral even_power zero_less_numeral)
          then obtain h where h: "m = 2 * h" by (auto elim: evenE)
          then show ?thesis by (simp add: y_def powi_split)
        qed
        ultimately have "rnd y = y"
          using y0 by (simp add: rnd_def round_even_of_int)
        then show ?thesis by (simp add: y)
      next
        case False
        then have "\<bar>m\<bar> < 2 ^ 53" using mhi by simp
        then have "(of_int \<bar>m\<bar> :: real) < 2 ^ 53" by (metis of_int_less_iff of_int_numeral of_int_power)
        then have u: "\<bar>y\<bar> < 2 powi (e + 53)" using p by (simp add: ay powi_split mult.commute)
        have "(2 ^ 52 :: real) \<le> of_int \<bar>m\<bar>" using mlo by (metis of_int_le_iff of_int_numeral of_int_power)
        then have l: "2 powi (e + 52) \<le> \<bar>y\<bar>" using p by (simp add: ay powi_split mult.commute)
        have "expo y = e" by (rule expo_eval [OF y0 l u ek(2)])
        then have "rnd y = y"
          using y0 by (simp add: rnd_def quot round_even_of_int yv)
        then show ?thesis by (simp add: y)
      qed
    qed
  qed
qed

lemma val_dbl: "val (dbl x) = rnd x"
  by transfer simp

lemma val_zero: "val 0 = 0"
  by transfer simp

lemma val_plus: "val (a + b) = rnd (val a + val b)"
  by transfer simp

lemma val_minus: "val (a - b) = rnd (val a - val b)"
  by transfer simp

lemma val_uminus: "val (- a) = rnd (- val a)"
  by transfer simp

lemma val_times: "val (a * b) = rnd (val a * val b)"
  by transfer simp

lemma val_divide: "val (a / b) = rnd (val a / val b)"
  by transfer simp

lemma val_dsqrt: "val (dsqrt a) = rnd (sqrt (val a))"
  by transfer simp

lemma val_eq_iff: "a = b \<longleftrightarrow> val a = val b"
  by transfer simp

lemma less_double_iff: "a < b \<longleftrightarrow> val a < val b"
  by transfer simp

lemma rnd_val: "rnd (val a) = val a"
  by transfer (auto simp: rnd_rnd)

lemma double_add_0 [simp]: "a + 0 = a" "0 + a = a" for a :: double
  by (simp_all add: val_eq_iff val_plus val_zero rnd_val)

lemma double_diff_0 [simp]: "a - 0 = a" for a :: double
  by (simp add: val_eq_iff val_minus val_zero rnd_val)

lemma double_diff_self [simp]: "a - a = 0" for a :: double
  by (simp add: val_eq_iff val_minus val_zero rnd_def)

lemma double_mult_0 [simp]: "0 * 0 = (0::double)"
  by (simp add: val_eq_iff val_times val_zero rnd_def)

subsection \<open>Double arithmetic on the values of the scenarios\<close>

lemma fx_1: "rnd (6091985181561547 / 35184372088832) = 6091985181561547 / 35184372088832"
  by (subst rnd_eval [where e = "- 45"]) (simp_all add: round_even_def)

lemma c_auday_value: "dbl (1731446326846693 / 10000000000000) = dbl (6091985181561547 / 35184372088832)"
  unfolding val_eq_iff val_dbl fx_1
  by (subst rnd_eval [where e = "- 45"]) (simp_all add: round_even_def)

lemma fx_2: "rnd (4951760157141521 / 4951760157141521099596496896) = 4951760157141521 / 4951760157141521099596496896"
  by (subst rnd_eval [where e = "- 92"]) (simp_all add: round_even_def)

lemma tolerance_value: "dbl (1 / 1000000000000) = dbl (4951760157141521 / 4951760157141521099596496896)"
  unfolding val_eq_iff val_dbl fx_2
  by (subst rnd_eval [where e = "- 92"]) (simp_all add: round_even_def)

lemma fx_3: "rnd (- (4951760157141521 / 4951760157141521099596496896)) = - (4951760157141521 / 4951760157141521099596496896)"
  by (subst rnd_eval [where e = "- 92"]) (simp_all add: round_even_def)

lemma neg_tolerance: "- dbl (4951760157141521 / 4951760157141521099596496896) = dbl (- (4951760157141521 / 4951760157141521099596496896))"
  unfolding val_eq_iff val_uminus val_dbl fx_2 fx_3
  by (rule refl)

lemma fx_4: "rnd 1 = 1"
  by (subst rnd_eval [where e = "- 52"]) (simp_all add: round_even_def)

lemma one_squared: "dbl 1 * dbl 1 = dbl 1"
  unfolding val_eq_iff val_times val_dbl fx_4 fx_4 fx_4
  by (subst rnd_eval [where e = "- 52"]) (simp_all add: round_even_def)

lemma sqrt_one: "dsqrt (dbl 1) = dbl 1"
proof -
  have "sqrt 1 = 1"
    by (rule real_sqrt_unique) (simp_all add: power2_eq_square)
  then show ?thesis
    unfolding val_eq_iff val_dsqrt val_dbl fx_4 by (simp only: fx_4)
qed

lemma fx_5: "rnd 4 = 4"
  by (subst rnd_eval [where e = "- 50"]) (simp_all add: round_even_def)

lemma fx_6: "rnd 16 = 16"
  by (subst rnd_eval [where e = "- 48"]) (simp_all add: round_even_def)

lemma four_squared: "dbl 4 * dbl 4 = dbl 16"
  unfolding val_eq_iff val_times val_dbl fx_5 fx_5 fx_6
  by (subst rnd_eval [where e = "- 48"]) (simp_all add: round_even_def)

lemma sqrt_sixteen: "dsqrt (dbl 16) = dbl 4"
proof -
  have "sqrt 16 = 4"
    by (rule real_sqrt_unique) (simp_all add: power2_eq_square)
  then show ?thesis
    unfolding val_eq_iff val_dsqrt val_dbl fx_6 by (simp only: fx_5)
qed





lemma fx_9: "rnd (6658719284163695 / 1152921504606846976) = 6658719284163695 / 1152921504606846976"
  by (subst rnd_eval [where e = "- 60"]) (simp_all add: round_even_def)

lemma lt_one: "dbl 1 / dbl (6091985181561547 / 35184372088832) = dbl (6658719284163695 / 1152921504606846976)"
  unfolding val_eq_iff val_divide val_dbl fx_4 fx_1 fx_9
  by (subst rnd_eval [where e = "- 60"]) (simp_all add: round_even_def)

lemma fx_10: "rnd (6658719284163695 / 288230376151711744) = 6658719284163695 / 288230376151711744"
  by (subst rnd_eval [where e = "- 58"]) (simp_all add: round_even_def)

lemma lt_four: "dbl 4 / dbl (6091985181561547 / 35184372088832) = dbl (6658719284163695 / 288230376151711744)"
  unfolding val_eq_iff val_divide val_dbl fx_5 fx_1 fx_10
  by (subst rnd_eval [where e = "- 58"]) (simp_all add: round_even_def)

lemma fx_11: "rnd 5 = 5"
  by (subst rnd_eval [where e = "- 50"]) (simp_all add: round_even_def)

lemma fx_12: "rnd (5622996878662179 / 1125899906842624) = 5622996878662179 / 1125899906842624"
  by (subst rnd_eval [where e = "- 50"]) (simp_all add: round_even_def)

lemma time_one: "dbl 5 - dbl (6658719284163695 / 1152921504606846976) = dbl (5622996878662179 / 1125899906842624)"
  unfolding val_eq_iff val_minus val_dbl fx_11 fx_9 fx_12
  by (subst rnd_eval [where e = "- 50"]) (simp_all add: round_even_def)

lemma fx_13: "rnd (1400872228002339 / 281474976710656) = 1400872228002339 / 281474976710656"
  by (subst rnd_eval [where e = "- 50"]) (simp_all add: round_even_def)

lemma time_four: "dbl 5 - dbl (6658719284163695 / 288230376151711744) = dbl (1400872228002339 / 281474976710656)"
  unfolding val_eq_iff val_minus val_dbl fx_11 fx_10 fx_13
  by (subst rnd_eval [where e = "- 50"]) (simp_all add: round_even_def)

lemma fx_14: "rnd (4994039463122771 / 288230376151711744) = 4994039463122771 / 288230376151711744"
  by (subst rnd_eval [where e = "- 58"]) (simp_all add: round_even_def)

lemma delta_up: "dbl (6658719284163695 / 288230376151711744) - dbl (6658719284163695 / 1152921504606846976) = dbl (4994039463122771 / 288230376151711744)"
  unfolding val_eq_iff val_minus val_dbl fx_10 fx_9 fx_14
  by (subst rnd_eval [where e = "- 58"]) (simp_all add: round_even_def)

lemma fx_15: "rnd (- (4994039463122771 / 288230376151711744)) = - (4994039463122771 / 288230376151711744)"
  by (subst rnd_eval [where e = "- 58"]) (simp_all add: round_even_def)

lemma delta_down: "dbl (6658719284163695 / 1152921504606846976) - dbl (6658719284163695 / 288230376151711744) = dbl (- (4994039463122771 / 288230376151711744))"
  unfolding val_eq_iff val_minus val_dbl fx_9 fx_10 fx_15
  by (subst rnd_eval [where e = "- 58"]) (simp_all add: round_even_def)

lemma fx_16: "rnd (319 / 64) = 319 / 64"
  by (subst rnd_eval [where e = "- 50"]) (simp_all add: round_even_def)

lemma window_lo_one: "dbl (319 / 64) < dbl (5622996878662179 / 1125899906842624)"
  unfolding less_double_iff val_dbl val_zero fx_16 fx_12
  by simp

lemma window_hi_one: "dbl (5622996878662179 / 1125899906842624) < dbl 5"
  unfolding less_double_iff val_dbl val_zero fx_12 fx_11
  by simp

lemma window_lo_four: "\<not> dbl (319 / 64) < dbl (1400872228002339 / 281474976710656)"
  unfolding less_double_iff val_dbl val_zero fx_16 fx_13
  by simp

lemma lt_one_large: "\<not> dbl (6658719284163695 / 1152921504606846976) < dbl (4951760157141521 / 4951760157141521099596496896)"
  unfolding less_double_iff val_dbl val_zero fx_9 fx_2
  by simp

lemma delta_up_large: "\<not> dbl (4994039463122771 / 288230376151711744) < dbl (4951760157141521 / 4951760157141521099596496896)"
  unfolding less_double_iff val_dbl val_zero fx_14 fx_2
  by simp

lemma delta_down_large: "\<not> dbl (- (4951760157141521 / 4951760157141521099596496896)) < dbl (- (4994039463122771 / 288230376151711744))"
  unfolding less_double_iff val_dbl val_zero fx_3 fx_15
  by simp






lemma tolerance_positive: "0 < dbl (4951760157141521 / 4951760157141521099596496896)"
  unfolding less_double_iff val_dbl val_zero fx_2
  by simp

lemma neg_tolerance_negative: "dbl (- (4951760157141521 / 4951760157141521099596496896)) < 0"
  unfolding less_double_iff val_dbl val_zero fx_3
  by simp

lemma fx_18: "rnd (6698208543366007 / 38685626227668133590597632) = 6698208543366007 / 38685626227668133590597632"
  by (subst rnd_eval [where e = "- 85"]) (simp_all add: round_even_def)

lemma boundary_value: "dbl (1082153954279183 / 6250000000000000000000000) = dbl (6698208543366007 / 38685626227668133590597632)"
  unfolding val_eq_iff val_dbl fx_18
  by (subst rnd_eval [where e = "- 85"]) (simp_all add: round_even_def)

lemma lt_boundary: "dbl (6698208543366007 / 38685626227668133590597632) / dbl (6091985181561547 / 35184372088832) = dbl (4951760157141521 / 4951760157141521099596496896)"
  unfolding val_eq_iff val_divide val_dbl fx_18 fx_1 fx_2
  by (subst rnd_eval [where e = "- 92"]) (simp_all add: round_even_def)

lemma tolerance_not_below_itself: "\<not> dbl (4951760157141521 / 4951760157141521099596496896) < dbl (4951760157141521 / 4951760157141521099596496896)"
  unfolding less_double_iff val_dbl val_zero fx_2 fx_2
  by simp

lemma boundary_positive: "0 < dbl (6698208543366007 / 38685626227668133590597632)"
  unfolding less_double_iff val_dbl val_zero fx_18
  by simp

lemma fx_19: "rnd (3602879701896397 / 36028797018963968) = 3602879701896397 / 36028797018963968"
  by (subst rnd_eval [where e = "- 56"]) (simp_all add: round_even_def)

lemma tenth_value: "dbl (1 / 10) = dbl (3602879701896397 / 36028797018963968)"
  unfolding val_eq_iff val_dbl fx_19
  by (subst rnd_eval [where e = "- 56"]) (simp_all add: round_even_def)

lemma fx_20: "rnd (3602879701896397 / 18014398509481984) = 3602879701896397 / 18014398509481984"
  by (subst rnd_eval [where e = "- 55"]) (simp_all add: round_even_def)

lemma fifth_value: "dbl (1 / 5) = dbl (3602879701896397 / 18014398509481984)"
  unfolding val_eq_iff val_dbl fx_20
  by (subst rnd_eval [where e = "- 55"]) (simp_all add: round_even_def)

lemma fx_21: "rnd (5404319552844595 / 18014398509481984) = 5404319552844595 / 18014398509481984"
  by (subst rnd_eval [where e = "- 54"]) (simp_all add: round_even_def)

lemma three_tenths_value: "dbl (3 / 10) = dbl (5404319552844595 / 18014398509481984)"
  unfolding val_eq_iff val_dbl fx_21
  by (subst rnd_eval [where e = "- 54"]) (simp_all add: round_even_def)

lemma fx_22: "rnd (1351079888211149 / 4503599627370496) = 1351079888211149 / 4503599627370496"
  by (subst rnd_eval [where e = "- 54"]) (simp_all add: round_even_def)

lemma tenth_plus_fifth: "dbl (3602879701896397 / 36028797018963968) + dbl (3602879701896397 / 18014398509481984) = dbl (1351079888211149 / 4503599627370496)"
  unfolding val_eq_iff val_plus val_dbl fx_19 fx_20 fx_22
  by (subst rnd_eval [where e = "- 54"]) (simp_all add: round_even_def)

lemma fx_23: "rnd (1351079888211149 / 2251799813685248) = 1351079888211149 / 2251799813685248"
  by (subst rnd_eval [where e = "- 53"]) (simp_all add: round_even_def)

lemma sum_left: "dbl (1351079888211149 / 4503599627370496) + dbl (5404319552844595 / 18014398509481984) = dbl (1351079888211149 / 2251799813685248)"
  unfolding val_eq_iff val_plus val_dbl fx_22 fx_21 fx_23
  by (subst rnd_eval [where e = "- 53"]) (simp_all add: round_even_def)

lemma fx_24: "rnd (1 / 2) = 1 / 2"
  by (subst rnd_eval [where e = "- 53"]) (simp_all add: round_even_def)

lemma fifth_plus_three_tenths: "dbl (3602879701896397 / 18014398509481984) + dbl (5404319552844595 / 18014398509481984) = dbl (1 / 2)"
  unfolding val_eq_iff val_plus val_dbl fx_20 fx_21 fx_24
  by (subst rnd_eval [where e = "- 53"]) (simp_all add: round_even_def)

lemma fx_25: "rnd (5404319552844595 / 9007199254740992) = 5404319552844595 / 9007199254740992"
  by (subst rnd_eval [where e = "- 53"]) (simp_all add: round_even_def)

lemma sum_right: "dbl (3602879701896397 / 36028797018963968) + dbl (1 / 2) = dbl (5404319552844595 / 9007199254740992)"
  unfolding val_eq_iff val_plus val_dbl fx_19 fx_24 fx_25
  by (subst rnd_eval [where e = "- 53"]) (simp_all add: round_even_def)

lemma fx_26: "rnd (7205759403792795 / 36028797018963968) = 7205759403792795 / 36028797018963968"
  by (subst rnd_eval [where e = "- 55"]) (simp_all add: round_even_def)

lemma full_difference: "dbl (1351079888211149 / 4503599627370496) - dbl (3602879701896397 / 36028797018963968) = dbl (7205759403792795 / 36028797018963968)"
  unfolding val_eq_iff val_minus val_dbl fx_22 fx_19 fx_26
  by (subst rnd_eval [where e = "- 55"]) (simp_all add: round_even_def)

lemma sum_left_literal: "dbl (6000000000000001 / 10000000000000000) = dbl (1351079888211149 / 2251799813685248)"
  unfolding val_eq_iff val_dbl fx_23
  by (subst rnd_eval [where e = "- 53"]) (simp_all add: round_even_def)

lemma sum_right_literal: "dbl (3 / 5) = dbl (5404319552844595 / 9007199254740992)"
  unfolding val_eq_iff val_dbl fx_25
  by (subst rnd_eval [where e = "- 53"]) (simp_all add: round_even_def)

lemma full_difference_literal: "dbl (5000000000000001 / 25000000000000000) = dbl (7205759403792795 / 36028797018963968)"
  unfolding val_eq_iff val_dbl fx_26
  by (subst rnd_eval [where e = "- 55"]) (simp_all add: round_even_def)

lemma sums_differ: "dbl (1351079888211149 / 2251799813685248) \<noteq> dbl (5404319552844595 / 9007199254740992)"
  unfolding val_eq_iff val_dbl fx_23 fx_25
  by simp

lemma differences_differ: "dbl (3602879701896397 / 18014398509481984) \<noteq> dbl (7205759403792795 / 36028797018963968)"
  unfolding val_eq_iff val_dbl fx_20 fx_26
  by simp

lemma one_val: "val (dbl 1) = 1"
  unfolding val_dbl by (rule fx_4)

lemma five_val: "val (dbl 5) = 5"
  unfolding val_dbl by (rule fx_11)

lemma fx_27: "rnd (- 1) = - 1"
  by (subst rnd_eval [where e = "- 52"]) (simp_all add: round_even_def)

lemma zero_minus_one: "val (0 - dbl 1) = - 1"
  unfolding val_minus val_zero val_dbl fx_4
  by (simp add: fx_27)

lemma fx_28: "rnd (- 5) = - 5"
  by (subst rnd_eval [where e = "- 50"]) (simp_all add: round_even_def)

lemma zero_minus_five: "val (0 - dbl 5) = - 5"
  unfolding val_minus val_zero val_dbl fx_11
  by (simp add: fx_28)

subsection \<open>The chain walk\<close>

lemma walk_leaf: "d c = None \<Longrightarrow> center_walk c d = Some []"
  by (subst center_walk.simps) simp

lemma walk_step:
  "d c = Some s \<Longrightarrow>
   center_walk c d = Option.bind (center_walk (center s) d) (\<lambda>rest. Some (s # rest))"
  by (subst center_walk.simps) simp

lemma walk_Some_cases:
  assumes "center_walk c d = Some w"
  shows "(d c = None \<and> w = []) \<or>
         (\<exists>s rest. d c = Some s \<and> center_walk (center s) d = Some rest \<and> w = s # rest)"
proof (cases "d c")
  case None
  then show ?thesis using assms by (simp add: walk_leaf)
next
  case (Some s)
  then show ?thesis using assms by (auto simp: walk_step bind_eq_Some_conv)
qed

text \<open>
  The walks over two segments that lead from body 399 over body 3 to the root 0, in
  the dictionary of the segments and in the dictionary of the segments listed twice
  (what \<^verbatim>\<open>_connect\<close> builds from two bodies of one ephemeris).
\<close>

lemma pair_dict:
  assumes "target a = 3" "target b = 399"
  shows "segment_dict [a, b] 0 = None" "segment_dict [a, b] 3 = Some a"
    "segment_dict [a, b] 399 = Some b"
    "segment_dict [a, b, a, b] 0 = None" "segment_dict [a, b, a, b] 3 = Some a"
    "segment_dict [a, b, a, b] 399 = Some b"
  using assms by (simp_all add: segment_dict_def)

lemma pair_walks:
  assumes "center a = 0" "target a = 3" "center b = 3" "target b = 399"
  shows "center_walk 0 (segment_dict [a, b]) = Some []"
    "center_walk 3 (segment_dict [a, b]) = Some [a]"
    "center_walk 399 (segment_dict [a, b]) = Some [b, a]"
    "center_walk 0 (segment_dict [a, b, a, b]) = Some []"
    "center_walk 3 (segment_dict [a, b, a, b]) = Some [a]"
    "center_walk 399 (segment_dict [a, b, a, b]) = Some [b, a]"
proof -
  note d = pair_dict [OF assms(2,4)]
  show r: "center_walk 0 (segment_dict [a, b]) = Some []"
    by (rule walk_leaf) (rule d)
  show r3: "center_walk 3 (segment_dict [a, b]) = Some [a]"
    using walk_step [of "segment_dict [a, b]" 3 a] r by (simp add: d assms)
  show "center_walk 399 (segment_dict [a, b]) = Some [b, a]"
    using walk_step [of "segment_dict [a, b]" 399 b] r3 by (simp add: d assms)
  show q: "center_walk 0 (segment_dict [a, b, a, b]) = Some []"
    by (rule walk_leaf) (rule d)
  show q3: "center_walk 3 (segment_dict [a, b, a, b]) = Some [a]"
    using walk_step [of "segment_dict [a, b, a, b]" 3 a] q by (simp add: d assms)
  show "center_walk 399 (segment_dict [a, b, a, b]) = Some [b, a]"
    using walk_step [of "segment_dict [a, b, a, b]" 399 b] q3 by (simp add: d assms)
qed

subsection \<open>Tally\<close>

lemma tally_plus_acc:
  fixes xs :: "('t, 'v::ab_group_add) segment list"
  shows "tally_plus xs t a = a + tally_plus xs t (0, 0)"
proof (induction xs arbitrary: a)
  case Nil
  then show ?case by (cases a) simp
next
  case (Cons s xs)
  obtain p v where c: "compute s t = (p, v)" by (cases "compute s t")
  obtain x y where a: "a = (x, y)" by (cases a)
  have "tally_plus (s # xs) t a = (x + p, y + v) + tally_plus xs t (0, 0)"
    using Cons.IH [of "(x + p, y + v)"] by (simp add: a c)
  moreover have "tally_plus (s # xs) t (0, 0) = (p, v) + tally_plus xs t (0, 0)"
    using Cons.IH [of "(p, v)"] by (simp add: c)
  ultimately show ?case by (simp add: a add.assoc)
qed

lemma tally_minus_acc:
  fixes xs :: "('t, 'v::ab_group_add) segment list"
  shows "tally_minus xs t a = a + tally_minus xs t (0, 0)"
proof (induction xs arbitrary: a)
  case Nil
  then show ?case by (cases a) simp
next
  case (Cons s xs)
  obtain p v where c: "compute s t = (p, v)" by (cases "compute s t")
  obtain x y where a: "a = (x, y)" by (cases a)
  have "tally_minus (s # xs) t a = (x - p, y - v) + tally_minus xs t (0, 0)"
    using Cons.IH [of "(x - p, y - v)"] by (simp add: a c)
  moreover have "tally_minus (s # xs) t (0, 0) = (- p, - v) + tally_minus xs t (0, 0)"
    using Cons.IH [of "(- p, - v)"] by (simp add: c)
  ultimately show ?case by (simp add: a)
qed

lemma tally_plus_append:
  fixes xs :: "('t, 'v::ab_group_add) segment list"
  shows "tally_plus (xs @ ys) t (0, 0) = tally_plus xs t (0, 0) + tally_plus ys t (0, 0)"
proof (induction xs)
  case Nil
  then show ?case by (simp add: zero_prod_def)
next
  case (Cons s xs)
  obtain p v where c: "compute s t = (p, v)" by (cases "compute s t")
  show ?case
    using Cons.IH tally_plus_acc [of "xs @ ys" t "(p, v)"] tally_plus_acc [of xs t "(p, v)"]
    by (simp add: c add.assoc)
qed

lemma tally_minus_append:
  fixes xs :: "('t, 'v::ab_group_add) segment list"
  shows "tally_minus (xs @ ys) t (0, 0) = tally_minus xs t (0, 0) + tally_minus ys t (0, 0)"
proof (induction xs)
  case Nil
  then show ?case by (simp add: zero_prod_def)
next
  case (Cons s xs)
  obtain p v where c: "compute s t = (p, v)" by (cases "compute s t")
  show ?case
    using Cons.IH tally_minus_acc [of "xs @ ys" t "(- p, - v)"]
      tally_minus_acc [of xs t "(- p, - v)"]
    by (simp add: c add.assoc)
qed

lemma tally_minus_neg:
  fixes xs :: "('t, 'v::ab_group_add) segment list"
  shows "tally_minus xs t (0, 0) = - tally_plus xs t (0, 0)"
proof (induction xs)
  case Nil
  then show ?case by simp
next
  case (Cons s xs)
  obtain p v where c: "compute s t = (p, v)" by (cases "compute s t")
  show ?case
    using Cons.IH tally_minus_acc [of xs t "(- p, - v)"] tally_plus_acc [of xs t "(p, v)"]
    by (simp add: c)
qed

lemma tally_split:
  fixes ms :: "('t, 'v::ab_group_add) segment list"
  shows "tally ms ps t = tally [] ps t - tally [] ms t"
proof -
  have "tally ms ps t = tally_minus ms t (0, 0) + tally_plus ps t (0, 0)"
    unfolding tally_def by (subst tally_plus_acc) simp
  then show ?thesis
    by (simp add: tally_def tally_minus_neg)
qed

lemma tally_concat:
  fixes a :: "('t, 'v::ab_group_add) segment list"
  shows "tally (a @ b) (c @ d) t = tally a c t + tally b d t"
proof -
  have p: "tally [] (x @ y) t = tally [] x t + tally [] y t" for x y :: "('t, 'v) segment list"
    by (simp add: tally_def tally_plus_append)
  show ?thesis
    by (simp add: tally_split [of "a @ b"] tally_split [of a] tally_split [of b] p)
qed

text \<open>
  In exact arithmetic, where the values form an abelian group, tallying a concatenation
  is the sum of tallying the parts, for all chains, in both roles.
\<close>

lemma tally_concat_both_roles:
  fixes chainA chainB :: "('t, 'v::ab_group_add) segment list"
  shows
  "fst (tally [] (chainA @ chainB) t) = fst (tally [] chainA t) + fst (tally [] chainB t) \<and>
   snd (tally [] (chainA @ chainB) t) = snd (tally [] chainA t) + snd (tally [] chainB t) \<and>
   fst (tally (chainA @ chainB) [] t) = fst (tally chainA [] t) + fst (tally chainB [] t) \<and>
   snd (tally (chainA @ chainB) [] t) = snd (tally chainA [] t) + snd (tally chainB [] t)"
  using tally_concat [of "[]" "[]" chainA chainB t] tally_concat [of chainA chainB "[]" "[]" t]
  by simp

text \<open>The tally of one, two and three segments, operation by operation.\<close>

lemma tally_single: "tally [] [s] t = (0 + fst (compute s t), 0 + snd (compute s t))"
  by (simp add: tally_def split: prod.split)

lemma tally_pair:
  "tally [] [a, b] t =
     ((0 + fst (compute a t)) + fst (compute b t), (0 + snd (compute a t)) + snd (compute b t))"
  by (simp add: tally_def split: prod.split)

lemma tally_minus_single:
  "tally [a] [] t = (0 - fst (compute a t), 0 - snd (compute a t))"
  by (simp add: tally_def split: prod.split)

lemma tally_minus_pair:
  "tally [a, b] [] t =
     ((0 - fst (compute a t)) - fst (compute b t), (0 - snd (compute a t)) - snd (compute b t))"
  by (simp add: tally_def split: prod.split)

lemma tally_triple:
  "tally [] [a, b, c] t =
     (((0 + fst (compute a t)) + fst (compute b t)) + fst (compute c t),
      ((0 + snd (compute a t)) + snd (compute b t)) + snd (compute c t))"
  by (simp add: tally_def split: prod.split)

subsection \<open>Tallies in which no operation is rounded\<close>

text \<open>
  When every operation of a tally over doubles is exact, the values of its result are
  the tally of the values in real arithmetic.
\<close>

lemma vval_inj: "vval a = vval b \<Longrightarrow> a = b"
  by (cases a, cases b) (simp add: vval_def val_eq_iff)

lemma vval_zero: "vval 0 = 0"
  by (simp add: vval_def zero_prod_def val_zero)

lemma pval_inj: "pval a = pval b \<Longrightarrow> a = b"
  using vval_inj [of "fst a" "fst b"] vval_inj [of "snd a" "snd b"]
  by (simp add: pval_def prod_eq_iff)

lemma pval_zero: "pval (0, 0) = (0, 0)"
  by (simp add: pval_def vval_zero)

lemma tally_plus_exact_val:
  "tally_plus_exact xs t acc \<Longrightarrow>
   pval (tally_plus xs t acc) = tally_plus (map exact_seg xs) t (pval acc)"
proof (induction xs arbitrary: acc)
  case Nil
  show ?case by (cases acc) (simp add: pval_def)
next
  case (Cons s xs)
  obtain pos vel where acc: "acc = (pos, vel)" by (cases acc)
  obtain p v where c: "compute s t = (p, v)" by (cases "compute s t")
  have e: "exact_add pos p" "exact_add vel v" "tally_plus_exact xs t (pos + p, vel + v)"
    using Cons.prems by (simp_all add: acc c)
  have "pval (tally_plus (s # xs) t acc) = pval (tally_plus xs t (pos + p, vel + v))"
    by (simp add: acc c)
  also have "\<dots> = tally_plus (map exact_seg xs) t (pval (pos + p, vel + v))"
    by (rule Cons.IH [OF e(3)])
  also have "pval (pos + p, vel + v) = (vval pos + vval p, vval vel + vval v)"
    using e(1,2) by (simp add: pval_def exact_add_def)
  also have "tally_plus (map exact_seg xs) t (vval pos + vval p, vval vel + vval v) =
             tally_plus (map exact_seg (s # xs)) t (pval acc)"
    by (simp add: acc exact_seg_def c pval_def)
  finally show ?case .
qed

lemma tally_minus_exact_val:
  "tally_minus_exact xs t acc \<Longrightarrow>
   pval (tally_minus xs t acc) = tally_minus (map exact_seg xs) t (pval acc)"
proof (induction xs arbitrary: acc)
  case Nil
  show ?case by (cases acc) (simp add: pval_def)
next
  case (Cons s xs)
  obtain pos vel where acc: "acc = (pos, vel)" by (cases acc)
  obtain p v where c: "compute s t = (p, v)" by (cases "compute s t")
  have e: "exact_sub pos p" "exact_sub vel v" "tally_minus_exact xs t (pos - p, vel - v)"
    using Cons.prems by (simp_all add: acc c)
  have "pval (tally_minus (s # xs) t acc) = pval (tally_minus xs t (pos - p, vel - v))"
    by (simp add: acc c)
  also have "\<dots> = tally_minus (map exact_seg xs) t (pval (pos - p, vel - v))"
    by (rule Cons.IH [OF e(3)])
  also have "pval (pos - p, vel - v) = (vval pos - vval p, vval vel - vval v)"
    using e(1,2) by (simp add: pval_def exact_sub_def)
  also have "tally_minus (map exact_seg xs) t (vval pos - vval p, vval vel - vval v) =
             tally_minus (map exact_seg (s # xs)) t (pval acc)"
    by (simp add: acc exact_seg_def c pval_def)
  finally show ?case .
qed

lemma tally_exact_val:
  assumes "tally_exact ms ps t"
  shows "pval (tally ms ps t) = tally (map exact_seg ms) (map exact_seg ps) t"
proof -
  have "pval (tally ms ps t) = tally_plus (map exact_seg ps) t (pval (tally_minus ms t (0, 0)))"
    unfolding tally_def using assms by (simp add: tally_exact_def tally_plus_exact_val)
  also have "pval (tally_minus ms t (0, 0)) = tally_minus (map exact_seg ms) t (0, 0)"
    using assms tally_minus_exact_val [of ms t "(0, 0)"] by (simp add: tally_exact_def pval_zero)
  finally show ?thesis by (simp add: tally_def)
qed

lemma pval_diff:
  assumes "exact_sub (fst a) (fst b)" "exact_sub (snd a) (snd b)"
  shows "pval (a - b) = pval a - pval b"
  using assms by (cases a, cases b) (simp add: pval_def exact_sub_def)

lemma pval_sum:
  assumes "exact_add (fst a) (fst b)" "exact_add (snd a) (snd b)"
  shows "pval (a + b) = pval a + pval b"
  using assms by (cases a, cases b) (simp add: pval_def exact_add_def)

lemma tally_concat_exact:
  fixes a b c d :: "('t, double \<times> double \<times> double) segment list"
  assumes "tally_exact (a @ b) (c @ d) t" "tally_exact a c t" "tally_exact b d t"
    and "exact_add (fst (tally a c t)) (fst (tally b d t))"
    and "exact_add (snd (tally a c t)) (snd (tally b d t))"
  shows "tally (a @ b) (c @ d) t = tally a c t + tally b d t"
proof -
  have "pval (tally (a @ b) (c @ d) t) =
        tally (map exact_seg a @ map exact_seg b) (map exact_seg c @ map exact_seg d) t"
    using tally_exact_val [OF assms(1)] by simp
  also have "\<dots> = tally (map exact_seg a) (map exact_seg c) t + tally (map exact_seg b) (map exact_seg d) t"
    by (rule tally_concat)
  also have "\<dots> = pval (tally a c t) + pval (tally b d t)"
    by (simp add: tally_exact_val [OF assms(2)] tally_exact_val [OF assms(3)])
  also have "\<dots> = pval (tally a c t + tally b d t)"
    by (rule pval_sum [symmetric]) (rule assms)+
  finally show ?thesis by (rule pval_inj)
qed

subsection \<open>The scenario of the specification in double arithmetic\<close>

lemma double_tags:
  "center S1_double = 0" "target S1_double = 3" "center S2_double = 3" "target S2_double = 399"
  by (simp_all add: S1_double_def S2_double_def)

lemma double_items:
  "items double_store (segments (Body double_ephemeris c)) = [S1_double, S2_double]"
  by (simp add: items_def Body_def double_ephemeris_def double_store_def)

lemma double_seq_add:
  "seq_add double_store (segments (Body double_ephemeris a))
     (segments (Body double_ephemeris b)) = Inr [S1_double, S2_double, S1_double, S2_double]"
  by (simp add: seq_add_def Body_def double_ephemeris_def double_store_def)

lemma double_tallies:
  "tally [] [S1_double] t = ((t, 0, 0), (dbl 1, 0, 0))"
  "tally [] [S2_double] t = ((0, dbl 1, 0), (0, 0, 0))"
  "tally [] [S1_double, S2_double] t = ((t, dbl 1, 0), (dbl 1, 0, 0))"
  "tally [S1_double] [] t = ((0 - t, 0, 0), (0 - dbl 1, 0, 0))"
  "tally [S2_double] [] t = ((0, 0 - dbl 1, 0), (0, 0, 0))"
  "tally [S1_double, S2_double] [] t = ((0 - t, 0 - dbl 1, 0), (0 - dbl 1, 0, 0))"
  by (simp_all add: tally_single tally_pair tally_minus_single tally_minus_pair
      S1_double_def S2_double_def zero_prod_def)

lemma exact_add_zero: "exact_add (x, y, z) (0, 0, 0)" "exact_add (0, 0, 0) (x, y, z)"
  by (simp_all add: exact_add_def vval_def val_zero)

lemma exact_sub_zero: "exact_sub (x, y, z) (0, 0, 0)" "exact_sub (x, y, z) (x, y, z)"
  by (simp_all add: exact_sub_def vval_def val_zero zero_prod_def)

lemma exact_add_axes:
  "exact_add (x, 0, 0) (0, y, 0)"
  by (simp add: exact_add_def vval_def val_zero)

lemma exact_sub_axes:
  "exact_sub (x, y, 0) (x, 0, 0)"
  by (simp add: exact_sub_def vval_def val_zero)

lemma exact_sub_from_zero:
  "exact_sub (0, 0, 0) (dbl 5, 0, 0)" "exact_sub (0, 0, 0) (dbl 1, 0, 0)"
  "exact_sub (0, 0, 0) (0, dbl 1, 0)"
  "exact_sub (0 - dbl 5, 0, 0) (0, dbl 1, 0)"
  by (simp_all add: exact_sub_def vval_def val_zero zero_minus_five zero_minus_one
      five_val one_val zero_prod_def)

lemma double_exact_plus:
  "tally_exact [] [S1_double] t" "tally_exact [] [S2_double] t"
  "tally_exact [] [S1_double, S2_double] t"
  by (simp_all add: tally_exact_def S1_double_def S2_double_def exact_add_zero
      exact_add_axes zero_prod_def)

lemma double_exact_minus:
  "tally_exact [S1_double] [] (dbl 5)" "tally_exact [S2_double] [] (dbl 5)"
  "tally_exact [S1_double, S2_double] [] (dbl 5)"
  by (simp_all add: tally_exact_def S1_double_def S2_double_def exact_sub_zero
      exact_sub_from_zero zero_prod_def)

subsection \<open>Three segments whose sum depends on the order of the additions\<close>

lemma rounding_tags:
  "center seg_tenth = 0" "target seg_tenth = 3" "center seg_fifth = 3" "target seg_fifth = 399"
  by (simp_all add: seg_tenth_def seg_fifth_def)

lemma rounding_tally_tenth: "tally [] [seg_tenth] t = ((dbl (1 / 10), 0, 0), (0, 0, 0))"
  by (simp add: tally_single seg_tenth_def zero_prod_def)

lemma rounding_tally_fifth: "tally [] [seg_fifth] t = ((dbl (1 / 5), 0, 0), (0, 0, 0))"
  by (simp add: tally_single seg_fifth_def zero_prod_def)

lemma rounding_tally_pair:
  "tally [] [seg_tenth, seg_fifth] t =
     ((dbl (1351079888211149 / 4503599627370496), 0, 0), (0, 0, 0))"
  by (simp add: tally_pair seg_tenth_def seg_fifth_def zero_prod_def
      tenth_value fifth_value tenth_plus_fifth)

lemma rounding_tally_tail:
  "tally [] [seg_fifth, seg_three_tenths] t = ((dbl (1 / 2), 0, 0), (0, 0, 0))"
  by (simp add: tally_pair seg_fifth_def seg_three_tenths_def zero_prod_def
      fifth_value three_tenths_value fifth_plus_three_tenths)

lemma rounding_tally_all:
  "tally [] [seg_tenth, seg_fifth, seg_three_tenths] t =
     ((dbl (1351079888211149 / 2251799813685248), 0, 0), (0, 0, 0))"
  by (simp add: tally_triple seg_tenth_def seg_fifth_def seg_three_tenths_def zero_prod_def
      tenth_value fifth_value three_tenths_value tenth_plus_fifth sum_left)

lemma rounding_seq_add:
  "seq_add rounding_store (segments (Body rounding_ephemeris a))
     (segments (Body rounding_ephemeris b)) = Inr [seg_tenth, seg_fifth, seg_tenth, seg_fifth]"
  by (simp add: seq_add_def Body_def rounding_ephemeris_def rounding_store_def)

lemma rounding_connect:
  "connect rounding_store (Body rounding_ephemeris 3) (Body rounding_ephemeris 399)
     = Some (Inr ([], [seg_fifth]))"
proof -
  have c: "code (Body rounding_ephemeris 3) = 3" "code (Body rounding_ephemeris 399) = 399"
    by (simp_all add: Body_def)
  show ?thesis
    by (simp add: connect_def rounding_seq_add c pair_walks [OF rounding_tags]
        connect_chains_def rounding_tags)
qed

subsection \<open>Tally of a concatenation\<close>

text \<open>
  C3, amended. For two chains of segments over vectors of doubles and a time at which
  none of the additions involved is rounded (every \<^verbatim>\<open>+=\<close> of the three tallies and the
  sum of the two results are exact), the tally of the concatenation as plus chain is
  the sum of the tallies of the parts, for position and velocity. The same holds in
  the minus role, when none of the subtractions of the three tallies and neither
  addition of the two results is rounded.
\<close>

theorem tally_linear:
  fixes chainA chainB :: "('t, double \<times> double \<times> double) segment list"
  shows
  "(tally_exact [] (chainA @ chainB) t \<and> tally_exact [] chainA t \<and> tally_exact [] chainB t \<and>
    exact_add (fst (tally [] chainA t)) (fst (tally [] chainB t)) \<and>
    exact_add (snd (tally [] chainA t)) (snd (tally [] chainB t)) \<longrightarrow>
    fst (tally [] (chainA @ chainB) t) = fst (tally [] chainA t) + fst (tally [] chainB t) \<and>
    snd (tally [] (chainA @ chainB) t) = snd (tally [] chainA t) + snd (tally [] chainB t)) \<and>
   (tally_exact (chainA @ chainB) [] t \<and> tally_exact chainA [] t \<and> tally_exact chainB [] t \<and>
    exact_add (fst (tally chainA [] t)) (fst (tally chainB [] t)) \<and>
    exact_add (snd (tally chainA [] t)) (snd (tally chainB [] t)) \<longrightarrow>
    fst (tally (chainA @ chainB) [] t) = fst (tally chainA [] t) + fst (tally chainB [] t) \<and>
    snd (tally (chainA @ chainB) [] t) = snd (tally chainA [] t) + snd (tally chainB [] t))"
  using tally_concat_exact [of "[]" "[]" chainA chainB t]
    tally_concat_exact [of chainA chainB "[]" "[]" t]
  by simp

theorem tally_linear_witness:
  "(tally_exact [] ([S1_double] @ [S2_double]) (dbl 5) \<and> tally_exact [] [S1_double] (dbl 5) \<and>
    tally_exact [] [S2_double] (dbl 5) \<and>
    exact_add (fst (tally [] [S1_double] (dbl 5))) (fst (tally [] [S2_double] (dbl 5))) \<and>
    exact_add (snd (tally [] [S1_double] (dbl 5))) (snd (tally [] [S2_double] (dbl 5)))) \<and>
   (tally_exact ([S1_double] @ [S2_double]) [] (dbl 5) \<and> tally_exact [S1_double] [] (dbl 5) \<and>
    tally_exact [S2_double] [] (dbl 5) \<and>
    exact_add (fst (tally [S1_double] [] (dbl 5))) (fst (tally [S2_double] [] (dbl 5))) \<and>
    exact_add (snd (tally [S1_double] [] (dbl 5))) (snd (tally [S2_double] [] (dbl 5)))) \<and>
   fst (tally [] ([S1_double] @ [S2_double]) (dbl 5))
     = fst (tally [] [S1_double] (dbl 5)) + fst (tally [] [S2_double] (dbl 5)) \<and>
   snd (tally [] ([S1_double] @ [S2_double]) (dbl 5))
     = snd (tally [] [S1_double] (dbl 5)) + snd (tally [] [S2_double] (dbl 5)) \<and>
   fst (tally ([S1_double] @ [S2_double]) [] (dbl 5))
     = fst (tally [S1_double] [] (dbl 5)) + fst (tally [S2_double] [] (dbl 5)) \<and>
   snd (tally ([S1_double] @ [S2_double]) [] (dbl 5))
     = snd (tally [S1_double] [] (dbl 5)) + snd (tally [S2_double] [] (dbl 5))"
proof -
  have p: "tally_exact [] ([S1_double] @ [S2_double]) (dbl 5) \<and> tally_exact [] [S1_double] (dbl 5) \<and>
    tally_exact [] [S2_double] (dbl 5) \<and>
    exact_add (fst (tally [] [S1_double] (dbl 5))) (fst (tally [] [S2_double] (dbl 5))) \<and>
    exact_add (snd (tally [] [S1_double] (dbl 5))) (snd (tally [] [S2_double] (dbl 5)))"
    by (simp add: double_exact_plus double_tallies exact_add_axes exact_add_zero)
  have m: "tally_exact ([S1_double] @ [S2_double]) [] (dbl 5) \<and> tally_exact [S1_double] [] (dbl 5) \<and>
    tally_exact [S2_double] [] (dbl 5) \<and>
    exact_add (fst (tally [S1_double] [] (dbl 5))) (fst (tally [S2_double] [] (dbl 5))) \<and>
    exact_add (snd (tally [S1_double] [] (dbl 5))) (snd (tally [S2_double] [] (dbl 5)))"
    by (simp add: double_exact_minus double_tallies exact_add_axes exact_add_zero)
  show ?thesis
    using tally_linear [of "[S1_double]" "[S2_double]" "dbl 5"] p m by blast
qed

text \<open>
  Without the condition the equality fails, so C3 as it is stated does not hold of
  double arithmetic. With the positions 0.1, 0.2 and 0.3 on the first axis, the
  accumulator of \<^verbatim>\<open>_tally\<close> over the three segments goes from 0.0 through 0.1 and
  0.30000000000000004 to 0.6000000000000001. The tally of the first segment alone is
  0.1, the tally of the other two is 0.5, and their sum is 0.6.
\<close>

theorem tally_linear_counterexample:
  "fst (tally [] ([seg_tenth] @ [seg_fifth, seg_three_tenths]) (dbl 5))
     = (dbl (6000000000000001 / 10000000000000000), 0, 0) \<and>
   fst (tally [] [seg_tenth] (dbl 5)) + fst (tally [] [seg_fifth, seg_three_tenths] (dbl 5))
     = (dbl (3 / 5), 0, 0) \<and>
   fst (tally [] ([seg_tenth] @ [seg_fifth, seg_three_tenths]) (dbl 5)) \<noteq>
     fst (tally [] [seg_tenth] (dbl 5)) + fst (tally [] [seg_fifth, seg_three_tenths] (dbl 5))"
proof -
  have l: "fst (tally [] ([seg_tenth] @ [seg_fifth, seg_three_tenths]) (dbl 5))
             = (dbl (1351079888211149 / 2251799813685248), 0, 0)"
    by (simp add: rounding_tally_all)
  have r: "fst (tally [] [seg_tenth] (dbl 5)) + fst (tally [] [seg_fifth, seg_three_tenths] (dbl 5))
             = (dbl (5404319552844595 / 9007199254740992), 0, 0)"
    by (simp add: rounding_tally_tenth rounding_tally_tail tenth_value sum_right)
  show ?thesis
    unfolding l r sum_left_literal sum_right_literal using sums_differ by simp
qed

subsection \<open>The scenario of the specification\<close>

lemma scenario_dict:
  "segment_dict [S1, S2] 0 = None"
  "segment_dict [S1, S2] 3 = Some S1"
  "segment_dict [S1, S2] 399 = Some S2"
  by (simp_all add: segment_dict_def S1_def S2_def)

lemma scenario_centers: "center S1 = 0" "center S2 = 3" "target S1 = 3" "target S2 = 399"
  by (simp_all add: S1_def S2_def)

lemma scenario_walk_3: "center_walk 3 (segment_dict [S1, S2]) = Some [S1]"
  using walk_step [of "segment_dict [S1, S2]" 3 S1]
    walk_leaf [of "segment_dict [S1, S2]" 0]
  by (simp add: scenario_dict scenario_centers)

lemma scenario_walk_399: "center_walk 399 (segment_dict [S1, S2]) = Some [S2, S1]"
  using walk_step [of "segment_dict [S1, S2]" 399 S2]
  by (simp add: scenario_dict scenario_walk_3 scenario_centers)

lemma scenario_items: "items scenario_store (segments (Body scenario_ephemeris c)) = [S1, S2]"
  by (simp add: items_def Body_def scenario_ephemeris_def scenario_store_def)

text \<open>
  C1. With the segments S1 (center 0, target 3) and S2 (center 3, target 399) of the
  scenario, \<^verbatim>\<open>Body(code=399).at(5)\<close> returns the position (5,1,0) and the velocity
  (1,0,0) as a barycentric result.
\<close>

theorem body_at_scenario:
  "body_at scenario_store (Body scenario_ephemeris 399) 5 =
     Some (Inr \<lparr>cls = Barycentric, position = (5, 1, 0), velocity = (1, 0, 0), jd_of = 5\<rparr>)"
proof -
  have c: "code (Body scenario_ephemeris 399) = 399"
    by (simp add: Body_def)
  show ?thesis
    unfolding body_at_def scenario_items c scenario_walk_399
    by (simp add: tally_def S1_def S2_def)
qed

text \<open>
  The same call in double arithmetic, at every time \<open>t\<close>: each addition has a zero
  operand, so nothing is rounded.
\<close>

lemma body_at_scenario_double:
  "body_at double_store (Body double_ephemeris 399) t =
     Some (Inr \<lparr>cls = Barycentric, position = (t, dbl 1, 0), velocity = (dbl 1, 0, 0),
                jd_of = t\<rparr>)"
proof -
  have c: "code (Body double_ephemeris 399) = 399"
    by (simp add: Body_def)
  show ?thesis
    unfolding body_at_def double_items c pair_walks [OF double_tags]
    by (simp add: tally_def S1_double_def S2_double_def zero_prod_def)
qed

subsection \<open>The common-ancestor reducer\<close>

lemma keyed_upd: "keyed m \<Longrightarrow> keyed (m(target s \<mapsto> s))"
  unfolding keyed_def by simp

lemma fold_keyed:
  "keyed m \<Longrightarrow> keyed (fold (\<lambda>s m. m(target s \<mapsto> s)) segs m)"
proof (induction segs arbitrary: m)
  case Nil
  then show ?case by simp
next
  case (Cons s segs)
  show ?case using Cons.IH [OF keyed_upd [OF Cons.prems, of s]] by simp
qed

lemma segment_dict_keyed: "keyed (segment_dict segs)"
  unfolding segment_dict_def by (rule fold_keyed) (simp add: keyed_def)

lemma walk_suffix:
  assumes "keyed d"
  shows "center_walk c d = Some w \<Longrightarrow> k < length w \<Longrightarrow>
         center_walk (target (w ! k)) d = Some (drop k w)"
proof (induction w arbitrary: c k)
  case Nil
  then show ?case by simp
next
  case (Cons s rest)
  from walk_Some_cases [OF Cons.prems(1)]
  have s: "d c = Some s" and r: "center_walk (center s) d = Some rest"
    by auto
  show ?case
  proof (cases k)
    case 0
    have "target s = c" using assms s by (simp add: keyed_def)
    then show ?thesis using Cons.prems(1) 0 by simp
  next
    case (Suc j)
    then show ?thesis using Cons.IH [OF r, of j] Cons.prems(2) by simp
  qed
qed

lemma rev_walk_prefix:
  assumes k: "keyed d"
    and w1: "center_walk c1 d = Some w1" and w2: "center_walk c2 d = Some w2"
    and j1: "j < length w1" and j2: "j < length w2"
    and eq: "target (rev w1 ! j) = target (rev w2 ! j)"
  shows "take (Suc j) (rev w1) = take (Suc j) (rev w2)"
proof -
  let ?k1 = "length w1 - Suc j" and ?k2 = "length w2 - Suc j"
  have n1: "rev w1 ! j = w1 ! ?k1" using j1 by (simp add: rev_nth)
  have n2: "rev w2 ! j = w2 ! ?k2" using j2 by (simp add: rev_nth)
  have "center_walk (target (w1 ! ?k1)) d = Some (drop ?k1 w1)"
    using walk_suffix [OF k w1, of ?k1] j1 by simp
  moreover have "center_walk (target (w2 ! ?k2)) d = Some (drop ?k2 w2)"
    using walk_suffix [OF k w2, of ?k2] j2 by simp
  ultimately have "drop ?k1 w1 = drop ?k2 w2"
    using eq n1 n2 by simp
  then show ?thesis by (simp add: take_rev)
qed

lemma agree_prefix_tail:
  assumes "agree_prefix (x # xs) (y # ys)"
  shows "agree_prefix xs ys"
  unfolding agree_prefix_def
proof (intro allI impI)
  fix j
  assume "j < length xs \<and> j < length ys \<and> target (xs ! j) = target (ys ! j)"
  then have "take (Suc (Suc j)) (x # xs) = take (Suc (Suc j)) (y # ys)"
    using assms unfolding agree_prefix_def by (auto dest!: spec [of _ "Suc j"])
  then show "take (Suc j) xs = take (Suc j) ys" by simp
qed

lemma agree_prefix_no_match:
  assumes "agree_prefix (x # xs) (y # ys)" and "target x \<noteq> target y"
  shows "filter (\<lambda>(a, b). target a = target b) (zip xs ys) = []"
proof -
  have "\<not> target a = target b" if "(a, b) \<in> set (zip xs ys)" for a b
  proof
    assume t: "target a = target b"
    from that obtain j where j: "j < length xs" "j < length ys" "xs ! j = a" "ys ! j = b"
      by (auto simp: in_set_zip)
    then have "take (Suc (Suc j)) (x # xs) = take (Suc (Suc j)) (y # ys)"
      using assms(1) t unfolding agree_prefix_def by (auto dest!: spec [of _ "Suc j"])
    then have "x = y" by simp
    with assms(2) show False by simp
  qed
  then show ?thesis by (auto simp: filter_empty_conv)
qed

lemma agree_prefix_count:
  "agree_prefix xs ys \<Longrightarrow>
   take (length (filter (\<lambda>(a, b). target a = target b) (zip xs ys))) xs =
   take (length (filter (\<lambda>(a, b). target a = target b) (zip xs ys))) ys"
proof (induction xs arbitrary: ys)
  case Nil
  then show ?case by simp
next
  case (Cons x xs)
  show ?case
  proof (cases ys)
    case Nil
    then show ?thesis by simp
  next
    case (Cons y ys')
    show ?thesis
    proof (cases "target x = target y")
      case True
      have "take (Suc 0) (x # xs) = take (Suc 0) (y # ys')"
        using Cons.prems True unfolding Cons agree_prefix_def by (auto dest!: spec [of _ 0])
      then have "x = y" by simp
      moreover have "agree_prefix xs ys'"
        using Cons.prems unfolding Cons by (rule agree_prefix_tail)
      ultimately show ?thesis using Cons.IH [of ys'] True by (simp add: Cons)
    next
      case False
      then show ?thesis
        using agree_prefix_no_match [of x xs y ys'] Cons.prems by (simp add: Cons)
    qed
  qed
qed

lemma rev_walks_agree:
  assumes "keyed d" "center_walk c1 d = Some w1" "center_walk c2 d = Some w2"
  shows "agree_prefix (rev w1) (rev w2)"
  unfolding agree_prefix_def using rev_walk_prefix [OF assms] by simp

lemma tally_prune:
  fixes xs :: "('t, 'v::ab_group_add) segment list"
  assumes "take n xs = take n ys"
  shows "tally (drop n xs) (drop n ys) t = tally [] ys t - tally [] xs t"
proof -
  have "tally [] xs t = tally [] (take n xs) t + tally [] (drop n xs) t"
    using tally_concat [of "[]" "[]" "take n xs" "drop n xs" t] by simp
  moreover have "tally [] ys t = tally [] (take n ys) t + tally [] (drop n ys) t"
    using tally_concat [of "[]" "[]" "take n ys" "drop n ys" t] by simp
  ultimately show ?thesis
    using assms by (simp add: tally_split [of "drop n xs" "drop n ys"])
qed

lemma tally_prune_exact:
  fixes xs ys :: "('t, double \<times> double \<times> double) segment list"
  assumes "take n xs = take n ys"
    and "tally_exact (drop n xs) (drop n ys) t" "tally_exact [] xs t" "tally_exact [] ys t"
    and "exact_sub (fst (tally [] ys t)) (fst (tally [] xs t))"
    and "exact_sub (snd (tally [] ys t)) (snd (tally [] xs t))"
  shows "tally (drop n xs) (drop n ys) t = tally [] ys t - tally [] xs t"
proof -
  have tk: "take n (map exact_seg xs) = take n (map exact_seg ys)"
    using assms(1) by (simp add: take_map)
  have "pval (tally (drop n xs) (drop n ys) t) =
        tally (drop n (map exact_seg xs)) (drop n (map exact_seg ys)) t"
    using tally_exact_val [OF assms(2)] by (simp add: drop_map)
  also have "\<dots> = tally [] (map exact_seg ys) t - tally [] (map exact_seg xs) t"
    by (rule tally_prune [OF tk])
  also have "\<dots> = pval (tally [] ys t) - pval (tally [] xs t)"
    using tally_exact_val [OF assms(3)] tally_exact_val [OF assms(4)] by simp
  also have "\<dots> = pval (tally [] ys t - tally [] xs t)"
    by (rule pval_diff [symmetric]) (rule assms)+
  finally show ?thesis by (rule pval_inj)
qed

text \<open>
  In exact arithmetic the tally of the pruned chains is the full subtraction, whatever
  the chains hold.
\<close>

lemma connect_prune_exact_arithmetic:
  fixes bodyA bodyB :: "('t, 'v::ab_group_add) body"
  assumes every: "seq_add h (segments bodyA) (segments bodyB) = Inr every"
    and wA: "center_walk (code bodyA) (segment_dict every) = Some wA"
    and wB: "center_walk (code bodyB) (segment_dict every) = Some wB"
    and ne: "wA \<noteq> []" "wB \<noteq> []"
    and root: "center (last wA) = center (last wB)"
  shows "\<exists>center_chain target_chain.
           connect h bodyA bodyB = Some (Inr (center_chain, target_chain)) \<and>
           fst (tally center_chain target_chain t) =
             fst (tally [] (rev wB) t) - fst (tally [] (rev wA) t) \<and>
           snd (tally center_chain target_chain t) =
             snd (tally [] (rev wB) t) - snd (tally [] (rev wA) t)"
proof -
  let ?n = "length (filter (\<lambda>(a, b). target a = target b) (zip (rev wA) (rev wB)))"
  obtain a ra where a: "rev wA = a # ra" using ne(1) by (cases "rev wA") auto
  obtain b rb where b: "rev wB = b # rb" using ne(2) by (cases "rev wB") auto
  have la: "last wA = a" using arg_cong [OF a, of hd] by (simp add: hd_rev)
  have lb: "last wB = b" using arg_cong [OF b, of hd] by (simp add: hd_rev)
  have "connect_chains (rev wA) (rev wB) = Inr (drop ?n (rev wA), drop ?n (rev wB))"
    using root la lb unfolding connect_chains_def a b by (simp add: Let_def)
  then have c: "connect h bodyA bodyB = Some (Inr (drop ?n (rev wA), drop ?n (rev wB)))"
    by (simp add: connect_def every wA wB)
  have "take ?n (rev wA) = take ?n (rev wB)"
    by (rule agree_prefix_count) (rule rev_walks_agree [OF segment_dict_keyed wA wB])
  then have "tally (drop ?n (rev wA)) (drop ?n (rev wB)) t =
             tally [] (rev wB) t - tally [] (rev wA) t"
    by (rule tally_prune)
  then have "fst (tally (drop ?n (rev wA)) (drop ?n (rev wB)) t) =
               fst (tally [] (rev wB) t) - fst (tally [] (rev wA) t)"
    and "snd (tally (drop ?n (rev wA)) (drop ?n (rev wB)) t) =
               snd (tally [] (rev wB) t) - snd (tally [] (rev wA) t)"
    by simp_all
  with c show ?thesis by blast
qed

text \<open>
  C2, amended. For two bodies A and B whose chains in the merged segment dictionary
  are resolved, are not empty and start at the same root, \<^verbatim>\<open>_connect\<close> returns the
  two chains without a prefix that they share. At every time at which no operation of
  the tally of the pruned chains, of the tallies of the two full chains and of the
  subtraction of their results is rounded, tallying the pruned chains (center suffix
  as minus chain, target suffix as plus chain) gives the position and the velocity of
  the full subtraction: the tally of the full chain of B minus the tally of the full
  chain of A.
\<close>

theorem connect_prune_equiv:
  fixes bodyA bodyB :: "('t, double \<times> double \<times> double) body"
  assumes every: "seq_add h (segments bodyA) (segments bodyB) = Inr every"
    and wA: "center_walk (code bodyA) (segment_dict every) = Some wA"
    and wB: "center_walk (code bodyB) (segment_dict every) = Some wB"
    and ne: "wA \<noteq> []" "wB \<noteq> []"
    and root: "center (last wA) = center (last wB)"
  shows "\<exists>center_chain target_chain shared.
           connect h bodyA bodyB = Some (Inr (center_chain, target_chain)) \<and>
           rev wA = shared @ center_chain \<and> rev wB = shared @ target_chain \<and>
           (tally_exact center_chain target_chain t \<and>
            tally_exact [] (rev wA) t \<and> tally_exact [] (rev wB) t \<and>
            exact_sub (fst (tally [] (rev wB) t)) (fst (tally [] (rev wA) t)) \<and>
            exact_sub (snd (tally [] (rev wB) t)) (snd (tally [] (rev wA) t)) \<longrightarrow>
            fst (tally center_chain target_chain t) =
              fst (tally [] (rev wB) t) - fst (tally [] (rev wA) t) \<and>
            snd (tally center_chain target_chain t) =
              snd (tally [] (rev wB) t) - snd (tally [] (rev wA) t))"
proof -
  let ?n = "length (filter (\<lambda>(a, b). target a = target b) (zip (rev wA) (rev wB)))"
  obtain a ra where a: "rev wA = a # ra" using ne(1) by (cases "rev wA") auto
  obtain b rb where b: "rev wB = b # rb" using ne(2) by (cases "rev wB") auto
  have la: "last wA = a" using arg_cong [OF a, of hd] by (simp add: hd_rev)
  have lb: "last wB = b" using arg_cong [OF b, of hd] by (simp add: hd_rev)
  have "connect_chains (rev wA) (rev wB) = Inr (drop ?n (rev wA), drop ?n (rev wB))"
    using root la lb unfolding connect_chains_def a b by (simp add: Let_def)
  then have c: "connect h bodyA bodyB = Some (Inr (drop ?n (rev wA), drop ?n (rev wB)))"
    by (simp add: connect_def every wA wB)
  have tk: "take ?n (rev wA) = take ?n (rev wB)"
    by (rule agree_prefix_count) (rule rev_walks_agree [OF segment_dict_keyed wA wB])
  have sa: "rev wA = take ?n (rev wA) @ drop ?n (rev wA)"
    by simp
  have sb: "rev wB = take ?n (rev wA) @ drop ?n (rev wB)"
    unfolding tk by simp
  have "fst (tally (drop ?n (rev wA)) (drop ?n (rev wB)) t) =
               fst (tally [] (rev wB) t) - fst (tally [] (rev wA) t) \<and>
        snd (tally (drop ?n (rev wA)) (drop ?n (rev wB)) t) =
               snd (tally [] (rev wB) t) - snd (tally [] (rev wA) t)"
    if "tally_exact (drop ?n (rev wA)) (drop ?n (rev wB)) t"
      "tally_exact [] (rev wA) t" "tally_exact [] (rev wB) t"
      "exact_sub (fst (tally [] (rev wB) t)) (fst (tally [] (rev wA) t))"
      "exact_sub (snd (tally [] (rev wB) t)) (snd (tally [] (rev wA) t))"
    using tally_prune_exact [OF tk that] by simp
  with c sa sb show ?thesis by blast
qed

lemma scenario_dict2:
  "segment_dict [S1, S2, S1, S2] 0 = None"
  "segment_dict [S1, S2, S1, S2] 3 = Some S1"
  "segment_dict [S1, S2, S1, S2] 399 = Some S2"
  by (simp_all add: segment_dict_def S1_def S2_def)

lemma scenario_walk2_3: "center_walk 3 (segment_dict [S1, S2, S1, S2]) = Some [S1]"
  using walk_step [of "segment_dict [S1, S2, S1, S2]" 3 S1]
    walk_leaf [of "segment_dict [S1, S2, S1, S2]" 0]
  by (simp add: scenario_dict2 scenario_centers)

lemma scenario_walk2_399: "center_walk 399 (segment_dict [S1, S2, S1, S2]) = Some [S2, S1]"
  using walk_step [of "segment_dict [S1, S2, S1, S2]" 399 S2]
  by (simp add: scenario_dict2 scenario_walk2_3 scenario_centers)

lemma scenario_seq_add:
  "seq_add scenario_store (segments (Body scenario_ephemeris a))
     (segments (Body scenario_ephemeris b)) = Inr [S1, S2, S1, S2]"
  by (simp add: seq_add_def Body_def scenario_ephemeris_def scenario_store_def)

theorem connect_prune_equiv_witness:
  "seq_add double_store (segments (Body double_ephemeris 3))
     (segments (Body double_ephemeris 399)) = Inr [S1_double, S2_double, S1_double, S2_double] \<and>
   center_walk (code (Body double_ephemeris 3))
     (segment_dict [S1_double, S2_double, S1_double, S2_double]) = Some [S1_double] \<and>
   center_walk (code (Body double_ephemeris 399))
     (segment_dict [S1_double, S2_double, S1_double, S2_double]) = Some [S2_double, S1_double] \<and>
   center (last [S1_double]) = center (last [S2_double, S1_double]) \<and>
   (\<exists>center_chain target_chain shared.
      connect double_store (Body double_ephemeris 3) (Body double_ephemeris 399)
        = Some (Inr (center_chain, target_chain)) \<and>
      rev [S1_double] = shared @ center_chain \<and>
      rev [S2_double, S1_double] = shared @ target_chain \<and>
      tally_exact center_chain target_chain (dbl 5) \<and>
      tally_exact [] (rev [S1_double]) (dbl 5) \<and>
      tally_exact [] (rev [S2_double, S1_double]) (dbl 5) \<and>
      exact_sub (fst (tally [] (rev [S2_double, S1_double]) (dbl 5)))
        (fst (tally [] (rev [S1_double]) (dbl 5))) \<and>
      exact_sub (snd (tally [] (rev [S2_double, S1_double]) (dbl 5)))
        (snd (tally [] (rev [S1_double]) (dbl 5))) \<and>
      fst (tally center_chain target_chain (dbl 5)) =
        fst (tally [] (rev [S2_double, S1_double]) (dbl 5))
          - fst (tally [] (rev [S1_double]) (dbl 5)) \<and>
      snd (tally center_chain target_chain (dbl 5)) =
        snd (tally [] (rev [S2_double, S1_double]) (dbl 5))
          - snd (tally [] (rev [S1_double]) (dbl 5)))"
proof -
  have c: "code (Body double_ephemeris 3) = 3" "code (Body double_ephemeris 399) = 399"
    by (simp_all add: Body_def)
  note w = pair_walks [OF double_tags]
  have a: "center_walk (code (Body double_ephemeris 3))
             (segment_dict [S1_double, S2_double, S1_double, S2_double]) = Some [S1_double]"
    by (simp add: c w)
  have b: "center_walk (code (Body double_ephemeris 399))
             (segment_dict [S1_double, S2_double, S1_double, S2_double])
             = Some [S2_double, S1_double]"
    by (simp add: c w)
  have r: "center (last [S1_double]) = center (last [S2_double, S1_double])" by simp
  have n: "[S1_double] \<noteq> []" "[S2_double, S1_double] \<noteq> []" by simp_all
  have k: "connect double_store (Body double_ephemeris 3) (Body double_ephemeris 399)
             = Some (Inr ([], [S2_double]))"
    by (simp add: connect_def double_seq_add c w connect_chains_def double_tags)
  have e: "tally_exact [] [S2_double] (dbl 5)" "tally_exact [] (rev [S1_double]) (dbl 5)"
    "tally_exact [] (rev [S2_double, S1_double]) (dbl 5)"
    "exact_sub (fst (tally [] (rev [S2_double, S1_double]) (dbl 5)))
        (fst (tally [] (rev [S1_double]) (dbl 5)))"
    "exact_sub (snd (tally [] (rev [S2_double, S1_double]) (dbl 5)))
        (snd (tally [] (rev [S1_double]) (dbl 5)))"
    by (simp_all add: double_exact_plus double_tallies exact_sub_axes exact_sub_zero)
  obtain cc tc sh where o:
    "connect double_store (Body double_ephemeris 3) (Body double_ephemeris 399)
        = Some (Inr (cc, tc))"
    "rev [S1_double] = sh @ cc" "rev [S2_double, S1_double] = sh @ tc"
    "tally_exact cc tc (dbl 5) \<and>
     tally_exact [] (rev [S1_double]) (dbl 5) \<and>
     tally_exact [] (rev [S2_double, S1_double]) (dbl 5) \<and>
     exact_sub (fst (tally [] (rev [S2_double, S1_double]) (dbl 5)))
        (fst (tally [] (rev [S1_double]) (dbl 5))) \<and>
     exact_sub (snd (tally [] (rev [S2_double, S1_double]) (dbl 5)))
        (snd (tally [] (rev [S1_double]) (dbl 5))) \<longrightarrow>
     fst (tally cc tc (dbl 5)) =
        fst (tally [] (rev [S2_double, S1_double]) (dbl 5))
          - fst (tally [] (rev [S1_double]) (dbl 5)) \<and>
     snd (tally cc tc (dbl 5)) =
        snd (tally [] (rev [S2_double, S1_double]) (dbl 5))
          - snd (tally [] (rev [S1_double]) (dbl 5))"
    using connect_prune_equiv [OF double_seq_add a b n r, of "dbl 5"] by blast
  from o(1) k have cc: "cc = []" "tc = [S2_double]" by simp_all
  have "tally_exact cc tc (dbl 5)" unfolding cc by (rule e)
  with o e(2-5) double_seq_add a b r show ?thesis by blast
qed

lemma decimal_difference:
  "(20000000000000004 / 100000000000000000 :: real) = 5000000000000001 / 25000000000000000"
  by simp

text \<open>
  Without these conditions the statement fails, so C2 as it is stated does not hold,
  in two ways. In double arithmetic pruning changes the result:
  with the positions 0.1 of body 3 and 0.2 of body 399 from body 3, the pruned chains
  of the pair (3, 399) are the empty chain and the segment of body 399, whose tally is
  0.2, while the full subtraction is 0.30000000000000004 - 0.1 = 0.20000000000000004.
  And for a body that is the shared root itself, here the pair (0, 399) of the
  scenario, the chain is empty and \<^verbatim>\<open>segments1[0]\<close> raises \<open>IndexError\<close>: no chains are
  returned.
\<close>

theorem connect_prune_counterexample:
  "connect rounding_store (Body rounding_ephemeris 3) (Body rounding_ephemeris 399)
     = Some (Inr ([], [seg_fifth])) \<and>
   center_walk 3 (segment_dict [seg_tenth, seg_fifth, seg_tenth, seg_fifth]) = Some [seg_tenth] \<and>
   center_walk 399 (segment_dict [seg_tenth, seg_fifth, seg_tenth, seg_fifth])
     = Some [seg_fifth, seg_tenth] \<and>
   fst (tally [] [seg_fifth] (dbl 5)) = (dbl (1 / 5), 0, 0) \<and>
   fst (tally [] (rev [seg_fifth, seg_tenth]) (dbl 5)) - fst (tally [] (rev [seg_tenth]) (dbl 5))
     = (dbl (20000000000000004 / 100000000000000000), 0, 0) \<and>
   fst (tally [] [seg_fifth] (dbl 5)) \<noteq>
     fst (tally [] (rev [seg_fifth, seg_tenth]) (dbl 5)) - fst (tally [] (rev [seg_tenth]) (dbl 5)) \<and>
   connect scenario_store (Body scenario_ephemeris 0) (Body scenario_ephemeris 399)
     = Some (Inl IndexError)"
proof -
  have f: "fst (tally [] (rev [seg_fifth, seg_tenth]) (dbl 5)) - fst (tally [] (rev [seg_tenth]) (dbl 5))
             = (dbl (7205759403792795 / 36028797018963968), 0, 0)"
    by (simp add: rounding_tally_pair rounding_tally_tenth tenth_value full_difference)
  have p: "fst (tally [] [seg_fifth] (dbl 5)) = (dbl (3602879701896397 / 18014398509481984), 0, 0)"
    by (simp add: rounding_tally_fifth fifth_value)
  have c: "code (Body scenario_ephemeris 0) = 0" "code (Body scenario_ephemeris 399) = 399"
    by (simp_all add: Body_def)
  have i: "connect scenario_store (Body scenario_ephemeris 0) (Body scenario_ephemeris 399)
             = Some (Inl IndexError)"
    by (simp add: connect_def scenario_seq_add c pair_walks [OF scenario_centers(1,3,2,4)]
        connect_chains_def)
  show ?thesis
    unfolding f p decimal_difference full_difference_literal fifth_value
      pair_walks [OF rounding_tags] rounding_connect i
    using differences_differ by simp
qed

subsection \<open>The light-time loop\<close>

lemma after_passes_snoc:
  "after_passes L C tc cp t (ks @ [k]) st =
     retally L tc cp t (distance (after_passes L C tc cp t ks st) / C)
       ((after_passes L C tc cp t ks st)\<lparr>pass_i := k,
          lighttime := distance (after_passes L C tc cp t ks st) / C\<rparr>)"
  by (induction ks arbitrary: st) simp_all

lemma light_loop_exhausted:
  "(\<forall>j<length ks. \<not> accepts C (after_passes L C tc cp t (take j ks) st)) \<Longrightarrow>
   light_loop L C tc cp t ks st = (False, after_passes L C tc cp t ks st)"
proof (induction ks arbitrary: st)
  case Nil
  then show ?case by simp
next
  case (Cons k ks)
  let ?st = "retally L tc cp t (distance st / C) (st\<lparr>pass_i := k, lighttime := distance st / C\<rparr>)"
  have 0: "\<not> accepts C st" using Cons.prems by (auto dest!: spec [of _ 0])
  have "\<not> accepts C (after_passes L C tc cp t (take j ks) ?st)" if "j < length ks" for j
    using Cons.prems that by (auto dest!: spec [of _ "Suc j"])
  then have "light_loop L C tc cp t ks ?st = (False, after_passes L C tc cp t ks ?st)"
    using Cons.IH [of ?st] by simp
  then show ?case using 0 by (simp add: accepts_def Let_def)
qed

lemma light_loop_break:
  "light_loop L C tc cp t ks st = (True, st') \<Longrightarrow>
   \<exists>j<length ks.
     accepts C (after_passes L C tc cp t (take j ks) st) \<and>
     (\<forall>i<j. \<not> accepts C (after_passes L C tc cp t (take i ks) st)) \<and>
     st' = (after_passes L C tc cp t (take j ks) st)\<lparr>pass_i := ks ! j,
             lighttime := distance (after_passes L C tc cp t (take j ks) st) / C\<rparr>"
proof (induction ks arbitrary: st)
  case Nil
  then show ?case by simp
next
  case (Cons k ks)
  let ?st = "retally L tc cp t (distance st / C) (st\<lparr>pass_i := k, lighttime := distance st / C\<rparr>)"
  show ?case
  proof (cases "accepts C st")
    case True
    then have "st' = st\<lparr>pass_i := k, lighttime := distance st / C\<rparr>"
      using Cons.prems by (simp add: accepts_def Let_def)
    with True show ?thesis by (intro exI [of _ 0]) simp
  next
    case False
    then have "light_loop L C tc cp t ks ?st = (True, st')"
      using Cons.prems by (simp add: accepts_def Let_def)
    from Cons.IH [OF this] obtain j where j: "j < length ks"
      "accepts C (after_passes L C tc cp t (take j ks) ?st)"
      "\<forall>i<j. \<not> accepts C (after_passes L C tc cp t (take i ks) ?st)"
      "st' = (after_passes L C tc cp t (take j ks) ?st)\<lparr>pass_i := ks ! j,
             lighttime := distance (after_passes L C tc cp t (take j ks) ?st) / C\<rparr>"
      by blast
    have "\<not> accepts C (after_passes L C tc cp t (take i (k # ks)) st)" if "i < Suc j" for i
    proof (cases i)
      case 0
      then show ?thesis using False by simp
    next
      case (Suc i')
      then show ?thesis using j(3) that by simp
    qed
    then show ?thesis using j by (intro exI [of _ "Suc j"]) simp
  qed
qed

lemma light_loop_cases:
  "fst (light_loop L C tc cp t ks st) \<or>
   light_loop L C tc cp t ks st = (False, after_passes L C tc cp t ks st)"
proof (induction ks arbitrary: st)
  case Nil
  then show ?case by simp
next
  case (Cons k ks)
  then show ?case by (simp add: Let_def)
qed

lemma solution_loop_exhausted:
  assumes "\<forall>n<10. \<not> accepts C (pass_state L C self t n)"
  shows "solution_loop L C self t = (False, pass_state L C self t 10)"
proof -
  have "\<forall>j<length [0..<10::nat]. \<not> accepts C
          (after_passes L C (sol_target_chain self) (fst (tally [] (sol_center_chain self) t)) t
             (take j [0..<10]) (initial_state L self t))"
    using assms by (simp add: pass_state_def take_upt)
  from light_loop_exhausted [OF this] show ?thesis
    by (simp add: solution_loop_def pass_state_def)
qed

lemma solution_loop_break:
  assumes "solution_loop L C self t = (True, st)"
  shows "\<exists>n<10. accepts C (pass_state L C self t n) \<and>
           (\<forall>i<n. \<not> accepts C (pass_state L C self t i)) \<and>
           st = (pass_state L C self t n)\<lparr>pass_i := n,
                  lighttime := distance (pass_state L C self t n) / C\<rparr>"
proof -
  from light_loop_break [OF assms [unfolded solution_loop_def]]
  obtain j where j: "j < 10"
    "accepts C (after_passes L C (sol_target_chain self)
        (fst (tally [] (sol_center_chain self) t)) t (take j [0..<10]) (initial_state L self t))"
    "\<forall>i<j. \<not> accepts C (after_passes L C (sol_target_chain self)
        (fst (tally [] (sol_center_chain self) t)) t (take i [0..<10]) (initial_state L self t))"
    "st = (after_passes L C (sol_target_chain self)
        (fst (tally [] (sol_center_chain self) t)) t (take j [0..<10]) (initial_state L self t))
        \<lparr>pass_i := [0..<10] ! j,
         lighttime := distance (after_passes L C (sol_target_chain self)
        (fst (tally [] (sol_center_chain self) t)) t (take j [0..<10]) (initial_state L self t)) / C\<rparr>"
    by auto
  have tk: "take i [0..<10::nat] = [0..<i]" if "i \<le> j" for i
    using that j(1) by (simp add: take_upt)
  have nth: "[0..<10::nat] ! j = j" using j(1) by simp
  show ?thesis
    using j tk nth by (intro exI [of _ j]) (simp add: pass_state_def)
qed

lemma retally_log:
  "tallied (retally L tc cp t lt st) = tallied st @ [(TargetChain, t - lt)]"
  by (simp add: retally_def split: prod.split)

lemma after_passes_log_length:
  "length (tallied (after_passes L C tc cp t ks st)) = length (tallied st) + length ks"
  by (induction ks arbitrary: st) (simp_all add: retally_log)

lemma retally_pass_i: "pass_i (retally L tc cp t lt st) = pass_i st"
  by (simp add: retally_def split: prod.split)

lemma pass_state_Suc:
  "pass_state L C self t (Suc n) =
     retally L (sol_target_chain self) (fst (tally [] (sol_center_chain self) t)) t
       (distance (pass_state L C self t n) / C)
       ((pass_state L C self t n)\<lparr>pass_i := n,
          lighttime := distance (pass_state L C self t n) / C\<rparr>)"
  by (simp add: pass_state_def after_passes_snoc)

lemma pass_state_0: "pass_state L C self t 0 = initial_state L self t"
  by (simp add: pass_state_def)

lemma initial_log: "tallied (initial_state L self t) = [(CenterChain, t), (TargetChain, t)]"
  by (simp add: initial_state_def split: prod.split)

lemma light_loop_not_broken:
  "light_loop L C tc cp t ks st = (False, st') \<Longrightarrow>
   \<forall>j<length ks. \<not> accepts C (after_passes L C tc cp t (take j ks) st)"
proof (induction ks arbitrary: st)
  case Nil
  then show ?case by simp
next
  case (Cons k ks)
  let ?st = "retally L tc cp t (distance st / C) (st\<lparr>pass_i := k, lighttime := distance st / C\<rparr>)"
  have 0: "\<not> accepts C st"
    using Cons.prems by (auto simp: accepts_def Let_def split: if_splits)
  then have "light_loop L C tc cp t ks ?st = (False, st')"
    using Cons.prems by (simp add: accepts_def Let_def)
  from Cons.IH [OF this]
  have r: "\<forall>j<length ks. \<not> accepts C (after_passes L C tc cp t (take j ks) ?st)" .
  show ?case
  proof (intro allI impI)
    fix j assume "j < length (k # ks)"
    then show "\<not> accepts C (after_passes L C tc cp t (take j (k # ks)) st)"
      using 0 r by (cases j) simp_all
  qed
qed

lemma solution_loop_not_broken:
  assumes "solution_loop L C self t = (False, st)"
  shows "\<forall>n<10. \<not> accepts C (pass_state L C self t n)"
proof (intro allI impI)
  fix n :: nat assume n: "n < 10"
  have "\<forall>j<length [0..<10::nat]. \<not> accepts C
          (after_passes L C (sol_target_chain self) (fst (tally [] (sol_center_chain self) t)) t
             (take j [0..<10]) (initial_state L self t))"
    by (rule light_loop_not_broken [OF assms [unfolded solution_loop_def]])
  then show "\<not> accepts C (pass_state L C self t n)"
    using n by (simp add: pass_state_def take_upt)
qed

lemma solution_at_Inl:
  "solution_at L C self t = Inl e \<Longrightarrow>
   e = LightTimeDivergence \<and> (\<exists>st. solution_loop L C self t = (False, st))"
  by (cases "solution_loop L C self t")
     (auto simp: solution_at_def split: prod.splits bool.splits)

lemma solution_at_Inr:
  "solution_at L C self t = Inr r \<Longrightarrow>
   \<exists>st. solution_loop L C self t = (True, st) \<and> pos_lighttime r = lighttime st"
  by (cases "solution_loop L C self t")
     (auto simp: solution_at_def split: prod.splits bool.splits)

text \<open>
  C6. When the convergence test fails on each of the ten passes, \<^verbatim>\<open>Solution.at\<close>
  raises the light-time divergence error, and it does so after exactly ten passes: the
  loop ends in its \<^verbatim>\<open>else\<close> branch with the state after ten passes, the loop variable
  is 9, and the target chain has been tallied again ten times (twelve calls of
  \<^verbatim>\<open>_tally\<close> in all).
\<close>

theorem light_time_divergence:
  assumes "\<forall>n<10. \<not> accepts C (pass_state L C self t n)"
  shows "solution_at L C self t = Inl LightTimeDivergence \<and>
         solution_loop L C self t = (False, pass_state L C self t 10) \<and>
         pass_i (pass_state L C self t 10) = 9 \<and>
         length (tallied (pass_state L C self t 10)) = 12"
proof -
  have l: "solution_loop L C self t = (False, pass_state L C self t 10)"
    by (rule solution_loop_exhausted [OF assms])
  then have e: "solution_at L C self t = Inl LightTimeDivergence"
    by (simp add: solution_at_def split: prod.split)
  have "pass_state L C self t 10 = pass_state L C self t (Suc 9)" by simp
  then have i: "pass_i (pass_state L C self t 10) = 9"
    by (simp only: pass_state_Suc retally_pass_i) simp
  have n: "length (tallied (pass_state L C self t 10)) = 12"
    by (simp add: pass_state_def after_passes_log_length initial_log)
  from l e i n show ?thesis by simp
qed

text \<open>
  The error is raised only then, and a result that is returned comes from a pass whose
  test succeeded: no estimate is returned without convergence.
\<close>

lemma divergence_only_when_exhausted:
  assumes "solution_at L C self t = Inl LightTimeDivergence"
  shows "\<forall>n<10. \<not> accepts C (pass_state L C self t n)"
proof -
  from solution_at_Inl [OF assms] obtain st where "solution_loop L C self t = (False, st)"
    by blast
  then show ?thesis by (rule solution_loop_not_broken)
qed

lemma returned_estimate_converged:
  assumes "solution_at L C self t = Inr r"
  shows "\<exists>n<10. accepts C (pass_state L C self t n) \<and>
           pos_lighttime r = distance (pass_state L C self t n) / C"
proof -
  from solution_at_Inr [OF assms] obtain st where
    st: "solution_loop L C self t = (True, st)" and pl: "pos_lighttime r = lighttime st"
    by blast
  from solution_loop_break [OF st]
  obtain n where "n < 10" "accepts C (pass_state L C self t n)"
    "st = (pass_state L C self t n)\<lparr>pass_i := n,
                lighttime := distance (pass_state L C self t n) / C\<rparr>"
    by blast
  then show ?thesis using pl by (intro exI [of _ n]) simp
qed

text \<open>
  The oscillating target: the length of a vector on the first axis, the values of the
  chains of \<open>wobble_solution\<close>, and the states of the loop. The light time is
  \<open>1 / C_AUDAY\<close> and \<open>4 / C_AUDAY\<close> in turn.
\<close>

lemma euclid_on_axis: "euclid_length (x, 0, 0) = dsqrt (x * x)"
  by (simp add: euclid_length_def)

lemma euclid_one: "euclid_length (dbl 1, 0, 0) = dbl 1"
  by (simp add: euclid_on_axis one_squared sqrt_one)

lemma euclid_four: "euclid_length (dbl 4, 0, 0) = dbl 4"
  by (simp add: euclid_on_axis four_squared sqrt_sixteen)

lemma origin_tally: "tally [] [origin_seg] t = ((0, 0, 0), (0, 0, 0))"
  by (simp add: tally_single origin_seg_def zero_prod_def)

lemma wobble_tally:
  "tally [] [wobble] t =
     (if dbl (319 / 64) < t \<and> t < dbl 5 then ((dbl 4, 0, 0), (0, 0, 0))
      else ((dbl 1, 0, 0), (0, 0, 0)))"
  by (simp add: tally_single wobble_def zero_prod_def)

lemma wobble_initial:
  "distance (initial_state euclid_length wobble_solution (dbl 5)) = dbl 1"
  "lighttime0 (initial_state euclid_length wobble_solution (dbl 5)) = 0"
  by (simp_all add: initial_state_def wobble_solution_def origin_tally wobble_tally
      less_double_iff euclid_one)

lemma wobble_center:
  "fst (tally [] (sol_center_chain wobble_solution) (dbl 5)) = (0, 0, 0)"
  by (simp add: wobble_solution_def origin_tally)

lemma wobble_retally:
  "distance (retally euclid_length (sol_target_chain wobble_solution) (0, 0, 0) (dbl 5) lt st) =
     (if dbl (319 / 64) < dbl 5 - lt \<and> dbl 5 - lt < dbl 5 then dbl 4 else dbl 1)"
  "lighttime0 (retally euclid_length (sol_target_chain wobble_solution) (0, 0, 0) (dbl 5) lt st)
     = lt"
  by (simp_all add: retally_def wobble_solution_def wobble_tally euclid_one euclid_four)

lemma wobble_times:
  "dbl (319 / 64) < dbl 5 - dbl 1 / c_auday \<and> dbl 5 - dbl 1 / c_auday < dbl 5"
  "\<not> dbl (319 / 64) < dbl 5 - dbl 4 / c_auday"
  by (simp_all add: c_auday_def c_auday_value lt_one lt_four time_one time_four
      window_lo_one window_hi_one window_lo_four)

lemma wobble_states:
  "distance (pass_state euclid_length c_auday wobble_solution (dbl 5) (Suc n)) =
     (if even n then dbl 4 else dbl 1) \<and>
   lighttime0 (pass_state euclid_length c_auday wobble_solution (dbl 5) (Suc n)) =
     (if even n then dbl 1 / c_auday else dbl 4 / c_auday)"
proof (induction n)
  case 0
  show ?case
    by (simp add: pass_state_Suc pass_state_0 wobble_center wobble_retally wobble_initial
        wobble_times)
next
  case (Suc n)
  show ?case using Suc.IH
    by (simp add: pass_state_Suc [of _ _ _ _ "Suc n"] wobble_center wobble_retally
        wobble_times)
qed

lemma wobble_tests:
  "\<not> converged (dbl 1 / c_auday)"
  "\<not> converged (dbl 4 / c_auday - dbl 1 / c_auday)"
  "\<not> converged (dbl 1 / c_auday - dbl 4 / c_auday)"
  by (simp_all add: converged_def c_auday_def c_auday_value tolerance_value neg_tolerance
      lt_one lt_four delta_up delta_down lt_one_large delta_up_large delta_down_large)

lemma wobble_never_accepts:
  "\<not> accepts c_auday (pass_state euclid_length c_auday wobble_solution (dbl 5) n)"
proof (cases n)
  case 0
  then show ?thesis
    by (simp add: accepts_def pass_state_0 wobble_initial wobble_tests)
next
  case (Suc m)
  then show ?thesis using wobble_states [of m]
    by (simp add: accepts_def wobble_tests)
qed

theorem light_time_divergence_witness:
  "\<not> accepts c_auday (pass_state euclid_length c_auday wobble_solution (dbl 5) 0) \<and>
   \<not> accepts c_auday (pass_state euclid_length c_auday wobble_solution (dbl 5) 9) \<and>
   solution_at euclid_length c_auday wobble_solution (dbl 5) = Inl LightTimeDivergence \<and>
   solution_loop euclid_length c_auday wobble_solution (dbl 5) =
     (False, pass_state euclid_length c_auday wobble_solution (dbl 5) 10) \<and>
   pass_i (pass_state euclid_length c_auday wobble_solution (dbl 5) 10) = 9 \<and>
   length (tallied (pass_state euclid_length c_auday wobble_solution (dbl 5) 10)) = 12"
proof -
  have h: "\<forall>n<10. \<not> accepts c_auday
             (pass_state euclid_length c_auday wobble_solution (dbl 5) n)"
    by (simp add: wobble_never_accepts)
  show ?thesis
    using light_time_divergence [OF h] wobble_never_accepts [of 0] wobble_never_accepts [of 9]
    by simp
qed


subsection \<open>Stationary chains\<close>

lemma stationary_tally_plus:
  "stationary xs \<Longrightarrow> tally_plus xs t a = tally_plus xs t' a"
proof (induction xs arbitrary: a)
  case Nil
  then show ?case by (cases a) simp
next
  case (Cons s xs)
  obtain x y where a: "a = (x, y)" by (cases a)
  have c: "compute s t = compute s t'" using Cons.prems by (simp add: stationary_def)
  have "stationary xs" using Cons.prems by (simp add: stationary_def)
  from Cons.IH [OF this] show ?case by (simp add: a c split: prod.split)
qed

lemma stationary_tally: "stationary xs \<Longrightarrow> tally [] xs t = tally [] xs t'"
  by (simp add: tally_def stationary_tally_plus [of xs t])

lemma upt_10: "[0..<10] = 0 # 1 # [2..<10]"
  by (simp add: upt_conv_Cons)

lemma converged_0: "converged 0"
  by (simp add: converged_def tolerance_value neg_tolerance tolerance_positive
      neg_tolerance_negative)

lemma stationary_loop:
  assumes tc: "stationary (sol_target_chain self)"
  shows "\<exists>st. solution_loop L C self t = (True, st) \<and>
           pass_i st = (if converged (L (fst (tally [] (sol_target_chain self) t)
                                           - fst (tally [] (sol_center_chain self) t)) / C)
                        then 0 else 1) \<and>
           lighttime st = L (fst (tally [] (sol_target_chain self) t)
                             - fst (tally [] (sol_center_chain self) t)) / C \<and>
           tposition st = fst (tally [] (sol_target_chain self) t) \<and>
           tvelocity st = snd (tally [] (sol_target_chain self) t)"
proof -
  let ?cp = "fst (tally [] (sol_center_chain self) t)"
  let ?tp = "fst (tally [] (sol_target_chain self) t)"
  let ?tv = "snd (tally [] (sol_target_chain self) t)"
  let ?d = "L (?tp - ?cp)"
  let ?st0 = "initial_state L self t"
  have i: "distance ?st0 = ?d" "lighttime0 ?st0 = 0" "tposition ?st0 = ?tp" "tvelocity ?st0 = ?tv"
    by (simp_all add: initial_state_def split: prod.split)
  show ?thesis
  proof (cases "converged (?d / C)")
    case True
    then show ?thesis
      by (simp add: solution_loop_def upt_10 i Let_def)
  next
    case False
    let ?st1 = "retally L (sol_target_chain self) ?cp t (?d / C)
                  (?st0\<lparr>pass_i := 0, lighttime := ?d / C\<rparr>)"
    have same: "tally [] (sol_target_chain self) (t - ?d / C) = tally [] (sol_target_chain self) t"
      by (rule stationary_tally [OF tc])
    have r: "distance ?st1 = ?d" "lighttime0 ?st1 = ?d / C" "tposition ?st1 = ?tp"
      "tvelocity ?st1 = ?tv"
      by (simp_all add: retally_def same split: prod.split)
    have "light_loop L C (sol_target_chain self) ?cp t [0..<10] ?st0 =
          light_loop L C (sol_target_chain self) ?cp t (1 # [2..<10]) ?st1"
      using False by (simp add: upt_10 i Let_def)
    also have "\<dots> = (True, ?st1\<lparr>pass_i := 1, lighttime := ?d / C\<rparr>)"
      by (simp add: r Let_def converged_0)
    finally show ?thesis
      using False by (simp add: solution_loop_def r)
  qed
qed

lemma stationary_solution_at:
  assumes "stationary (sol_target_chain self)"
  shows "solution_at L C self t =
     Inr \<lparr>cls = (if sol_center self = 0 then Barycentric else Astrometric),
          position = fst (tally [] (sol_target_chain self) t)
                       - fst (tally [] (sol_center_chain self) t),
          velocity = snd (tally [] (sol_target_chain self) t)
                       - snd (tally [] (sol_center_chain self) t),
          jd_of = t,
          pos_lighttime = L (fst (tally [] (sol_target_chain self) t)
                             - fst (tally [] (sol_center_chain self) t)) / C,
          pos_observer =
            \<lparr>observer_position = fst (tally [] (sol_center_chain self) t),
             observer_velocity = snd (tally [] (sol_center_chain self) t),
             geocentric = False\<rparr>\<rparr>"
proof -
  from stationary_loop [OF assms, of L C t] obtain st where
    "solution_loop L C self t = (True, st)"
    "lighttime st = L (fst (tally [] (sol_target_chain self) t)
                             - fst (tally [] (sol_center_chain self) t)) / C"
    "tposition st = fst (tally [] (sol_target_chain self) t)"
    "tvelocity st = snd (tally [] (sol_target_chain self) t)"
    by blast
  then show ?thesis
    by (simp add: solution_at_def split: prod.split)
qed


lemma scenario_stationary:
  "stationary [origin_seg]" "stationary [far_seg]" "stationary [near_seg]"
  by (simp_all add: stationary_def origin_seg_def far_seg_def near_seg_def)









text \<open>
  At the separation \<^verbatim>\<open>1.7314463268466928e-10\<close> the quotient by \<^verbatim>\<open>173.1446326846693\<close> is
  the double \<^verbatim>\<open>1e-12\<close> itself: the strict test of the loop fails, and such a separation
  is accepted on the second pass.
\<close>

lemma boundary_literal:
  "(17314463268466928 / 100000000000000000000000000 :: real) =
     1082153954279183 / 6250000000000000000000000"
  by simp

lemma boundary_quotient:
  "dbl (17314463268466928 / 100000000000000000000000000) / c_auday = dbl (1 / 1000000000000)"
  by (simp only: boundary_literal c_auday_def c_auday_value boundary_value lt_boundary
      tolerance_value)

lemma boundary_test_fails:
  "\<not> converged (dbl (17314463268466928 / 100000000000000000000000000) / c_auday - 0)"
  unfolding boundary_quotient double_diff_0 converged_def tolerance_value
  using tolerance_not_below_itself by simp

subsection \<open>The center chain in the light-time loop\<close>

lemma loop_inv_retally:
  assumes "filter (\<lambda>e. fst e = CenterChain) (tallied st) = [(CenterChain, t)]"
  shows "loop_inv L tc cp t (retally L tc cp t lt st)"
  using assms by (simp add: loop_inv_def retally_def split: prod.split)

lemma loop_inv_log:
  "loop_inv L tc cp t st \<Longrightarrow>
   filter (\<lambda>e. fst e = CenterChain) (tallied st) = [(CenterChain, t)]"
  by (simp add: loop_inv_def)

lemma loop_inv_light_loop:
  "loop_inv L tc cp t st \<Longrightarrow> loop_inv L tc cp t (snd (light_loop L C tc cp t ks st))"
proof (induction ks arbitrary: st)
  case Nil
  then show ?case by simp
next
  case (Cons k ks)
  let ?st1 = "st\<lparr>pass_i := k, lighttime := distance st / C\<rparr>"
  have 1: "loop_inv L tc cp t ?st1" using Cons.prems by (simp add: loop_inv_def)
  have "loop_inv L tc cp t (retally L tc cp t (distance st / C) ?st1)"
    by (rule loop_inv_retally) (use 1 in \<open>simp add: loop_inv_def\<close>)
  from Cons.IH [OF this] 1 show ?case by (simp add: Let_def)
qed

lemma loop_inv_after_passes:
  "loop_inv L tc cp t st \<Longrightarrow> loop_inv L tc cp t (after_passes L C tc cp t ks st)"
proof (induction ks arbitrary: st)
  case Nil
  then show ?case by simp
next
  case (Cons k ks)
  have "loop_inv L tc cp t (retally L tc cp t (distance st / C)
           (st\<lparr>pass_i := k, lighttime := distance st / C\<rparr>))"
    by (rule loop_inv_retally) (use Cons.prems in \<open>simp add: loop_inv_def\<close>)
  from Cons.IH [OF this] show ?case by simp
qed

lemma loop_inv_initial:
  "loop_inv L (sol_target_chain self) (fst (tally [] (sol_center_chain self) t)) t
     (initial_state L self t)"
  by (simp add: loop_inv_def initial_state_def split: prod.split)

lemma loop_inv_solution_loop:
  "loop_inv L (sol_target_chain self) (fst (tally [] (sol_center_chain self) t)) t
     (snd (solution_loop L C self t))"
  unfolding solution_loop_def by (rule loop_inv_light_loop) (rule loop_inv_initial)

lemma loop_inv_pass_state:
  "loop_inv L (sol_target_chain self) (fst (tally [] (sol_center_chain self) t)) t
     (pass_state L C self t n)"
  unfolding pass_state_def by (rule loop_inv_after_passes) (rule loop_inv_initial)

lemma solution_at_same_center_value:
  assumes "sol_target_chain self' = sol_target_chain self"
    and "sol_center self' = sol_center self"
    and "tally [] (sol_center_chain self') t = tally [] (sol_center_chain self) t"
  shows "solution_at L C self' t = solution_at L C self t"
proof -
  have "initial_state L self' t = initial_state L self t"
    using assms by (simp add: initial_state_def)
  then have "solution_loop L C self' t = solution_loop L C self t"
    using assms by (simp add: solution_loop_def)
  then show ?thesis using assms by (simp add: solution_at_def)
qed

lemma solution_at_observer:
  assumes "solution_at L C self t = Inr r"
  shows "observer_position (pos_observer r) = fst (tally [] (sol_center_chain self) t) \<and>
         observer_velocity (pos_observer r) = snd (tally [] (sol_center_chain self) t) \<and>
         position r = tposition (snd (solution_loop L C self t))
                        - fst (tally [] (sol_center_chain self) t) \<and>
         velocity r = tvelocity (snd (solution_loop L C self t))
                        - snd (tally [] (sol_center_chain self) t)"
  using assms
  by (cases "solution_loop L C self t")
     (auto simp: solution_at_def split: prod.splits bool.splits)

text \<open>
  C8. In every evaluation of \<^verbatim>\<open>Solution.at\<close> at a time \<open>t\<close> the center chain is tallied
  exactly once, at \<open>t\<close>: the record of the calls of \<^verbatim>\<open>_tally\<close> holds one entry for the
  center chain, with time \<open>t\<close>. On entry to every pass and at the end of the loop the
  distance is measured from that one center position, and the target values are those of
  the target chain at \<open>t\<close> minus the light time of the pass before. A returned result
  holds that center position and velocity as the observer's and subtracts them from the
  target's. The result depends on the center chain only through its tally at \<open>t\<close>.
\<close>

theorem center_chain_held_at_nominal_time:
  "filter (\<lambda>e. fst e = CenterChain) (tallied (snd (solution_loop L C self t)))
     = [(CenterChain, t)] \<and>
   (\<forall>n. distance (pass_state L C self t n) =
          L (tposition (pass_state L C self t n) - fst (tally [] (sol_center_chain self) t)) \<and>
        (tposition (pass_state L C self t n), tvelocity (pass_state L C self t n)) =
          tally [] (sol_target_chain self) (t - lighttime0 (pass_state L C self t n))) \<and>
   distance (snd (solution_loop L C self t)) =
     L (tposition (snd (solution_loop L C self t)) - fst (tally [] (sol_center_chain self) t)) \<and>
   (tposition (snd (solution_loop L C self t)), tvelocity (snd (solution_loop L C self t))) =
     tally [] (sol_target_chain self) (t - lighttime0 (snd (solution_loop L C self t))) \<and>
   (\<forall>r. solution_at L C self t = Inr r \<longrightarrow>
        observer_position (pos_observer r) = fst (tally [] (sol_center_chain self) t) \<and>
        observer_velocity (pos_observer r) = snd (tally [] (sol_center_chain self) t) \<and>
        position r = tposition (snd (solution_loop L C self t))
                       - fst (tally [] (sol_center_chain self) t) \<and>
        velocity r = tvelocity (snd (solution_loop L C self t))
                       - snd (tally [] (sol_center_chain self) t)) \<and>
   (\<forall>self'. sol_target_chain self' = sol_target_chain self \<and>
            sol_center self' = sol_center self \<and>
            tally [] (sol_center_chain self') t = tally [] (sol_center_chain self) t \<longrightarrow>
            solution_at L C self' t = solution_at L C self t)"
proof -
  note a = loop_inv_solution_loop [of L self t C, unfolded loop_inv_def]
  note b = loop_inv_pass_state [of L self t C, unfolded loop_inv_def]
  have 1: "filter (\<lambda>e. fst e = CenterChain) (tallied (snd (solution_loop L C self t)))
     = [(CenterChain, t)]"
    using a by blast
  have 2: "\<forall>n. distance (pass_state L C self t n) =
          L (tposition (pass_state L C self t n) - fst (tally [] (sol_center_chain self) t)) \<and>
        (tposition (pass_state L C self t n), tvelocity (pass_state L C self t n)) =
          tally [] (sol_target_chain self) (t - lighttime0 (pass_state L C self t n))"
    using b by blast
  have 3: "distance (snd (solution_loop L C self t)) =
     L (tposition (snd (solution_loop L C self t)) - fst (tally [] (sol_center_chain self) t))"
    using a by blast
  have 4: "(tposition (snd (solution_loop L C self t)), tvelocity (snd (solution_loop L C self t))) =
     tally [] (sol_target_chain self) (t - lighttime0 (snd (solution_loop L C self t)))"
    using a by blast
  have 5: "\<forall>r. solution_at L C self t = Inr r \<longrightarrow>
        observer_position (pos_observer r) = fst (tally [] (sol_center_chain self) t) \<and>
        observer_velocity (pos_observer r) = snd (tally [] (sol_center_chain self) t) \<and>
        position r = tposition (snd (solution_loop L C self t))
                       - fst (tally [] (sol_center_chain self) t) \<and>
        velocity r = tvelocity (snd (solution_loop L C self t))
                       - snd (tally [] (sol_center_chain self) t)"
    using solution_at_observer [of L C self t] by blast
  have 6: "\<forall>self'. sol_target_chain self' = sol_target_chain self \<and>
            sol_center self' = sol_center self \<and>
            tally [] (sol_center_chain self') t = tally [] (sol_center_chain self) t \<longrightarrow>
            solution_at L C self' t = solution_at L C self t"
    using solution_at_same_center_value [of _ self t L C] by blast
  from 1 2 3 4 5 6 show ?thesis by (intro conjI)
qed

lemma drifting_same_at_5:
  "tally [] (sol_center_chain drifting_solution) (dbl 5) = tally [] (sol_center_chain far_solution) (dbl 5)"
  by (simp add: drifting_solution_def far_solution_def drifting_seg_def origin_seg_def
      tally_single)

lemma far_center_value: "fst (tally [] (sol_center_chain far_solution) (dbl 5)) = (0, 0, 0)"
  by (simp add: far_solution_def origin_tally)

lemma far_returns: "\<exists>r. solution_at euclid_length c_auday far_solution (dbl 5) = Inr r"
  by (simp add: stationary_solution_at far_solution_def scenario_stationary)

theorem center_chain_held_at_nominal_time_witness:
  "filter (\<lambda>e. fst e = CenterChain)
     (tallied (snd (solution_loop euclid_length c_auday far_solution (dbl 5)))) = [(CenterChain, dbl 5)] \<and>
   sol_target_chain drifting_solution = sol_target_chain far_solution \<and>
   sol_center drifting_solution = sol_center far_solution \<and>
   tally [] (sol_center_chain drifting_solution) (dbl 5) = tally [] (sol_center_chain far_solution) (dbl 5) \<and>
   solution_at euclid_length c_auday drifting_solution (dbl 5) =
     solution_at euclid_length c_auday far_solution (dbl 5) \<and>
   (\<exists>r. solution_at euclid_length c_auday far_solution (dbl 5) = Inr r \<and>
        observer_position (pos_observer r) = (0, 0, 0))"
proof -
  note th = center_chain_held_at_nominal_time [of euclid_length c_auday far_solution "dbl 5"]
  have s: "sol_target_chain drifting_solution = sol_target_chain far_solution"
    "sol_center drifting_solution = sol_center far_solution"
    by (simp_all add: drifting_solution_def far_solution_def)
  from th have 1: "filter (\<lambda>e. fst e = CenterChain)
     (tallied (snd (solution_loop euclid_length c_auday far_solution (dbl 5)))) = [(CenterChain, dbl 5)]"
    by blast
  from th s drifting_same_at_5
  have 2: "solution_at euclid_length c_auday drifting_solution (dbl 5) =
           solution_at euclid_length c_auday far_solution (dbl 5)"
    by blast
  from far_returns obtain r where r: "solution_at euclid_length c_auday far_solution (dbl 5) = Inr r"
    by blast
  with th have "observer_position (pos_observer r) = fst (tally [] (sol_center_chain far_solution) (dbl 5))"
    by blast
  then have 3: "\<exists>r. solution_at euclid_length c_auday far_solution (dbl 5) = Inr r \<and>
        observer_position (pos_observer r) = (0, 0, 0)"
    using r far_center_value by auto
  from 1 s drifting_same_at_5 2 3 show ?thesis by (intro conjI)
qed

subsection \<open>Termination of the chain walk\<close>

lemma walk_Nil_iff: "center_walk c d = Some [] \<longleftrightarrow> d c = None"
proof
  assume "center_walk c d = Some []"
  from walk_Some_cases [OF this] show "d c = None" by simp
next
  assume "d c = None"
  then show "center_walk c d = Some []" by (rule walk_leaf)
qed

lemma walk_after_steps:
  "steps d k c = Some c' \<Longrightarrow> center_walk c d = Some w \<Longrightarrow>
   k \<le> length w \<and> center_walk c' d = Some (drop k w)"
proof (induction k arbitrary: c w)
  case 0
  then show ?case by simp
next
  case (Suc k)
  from Suc.prems(1) obtain s where s: "d c = Some s" and st: "steps d k (center s) = Some c'"
    by (auto split: option.splits)
  from walk_Some_cases [OF Suc.prems(2)] s obtain rest where
    r: "center_walk (center s) d = Some rest" and w: "w = s # rest"
    by auto
  from Suc.IH [OF st r] show ?case by (simp add: w)
qed

lemma walk_before_steps:
  "steps d k c = Some c' \<Longrightarrow> center_walk c' d = Some w' \<Longrightarrow>
   \<exists>w. center_walk c d = Some w \<and> length w = k + length w'"
proof (induction k arbitrary: c)
  case 0
  then show ?case by simp
next
  case (Suc k)
  from Suc.prems(1) obtain s where s: "d c = Some s" and st: "steps d k (center s) = Some c'"
    by (auto split: option.splits)
  from Suc.IH [OF st Suc.prems(2)] obtain w where
    w: "center_walk (center s) d = Some w" "length w = k + length w'"
    by blast
  then have "center_walk c d = Some (s # w)"
    using walk_step [of d c s] s by simp
  with w show ?case by simp
qed

lemma steps_add:
  "steps d (a + b) c = (case steps d a c of None \<Rightarrow> None | Some c' \<Rightarrow> steps d b c')"
  by (induction a arbitrary: c) (simp_all split: option.split)

lemma cycle_never_ends:
  assumes "cycle_reachable d c"
  shows "center_walk c d = None"
proof (cases "center_walk c d")
  case None
  then show ?thesis .
next
  case (Some w)
  from assms obtain k n c' where
    k: "steps d k c = Some c'" and n: "0 < n" and l: "steps d n c' = Some c'"
    unfolding cycle_reachable_def by blast
  from walk_after_steps [OF k Some] obtain w' where w': "center_walk c' d = Some w'"
    by simp
  from walk_after_steps [OF l w']
  have le: "n \<le> length w'" and "center_walk c' d = Some (drop n w')"
    by simp_all
  with w' have "w' = drop n w'" by simp
  then have "length w' = length (drop n w')" by (rule arg_cong)
  also have "\<dots> = length w' - n" by simp
  finally have "length w' = length w' - n" .
  with n le have False by arith
  then show ?thesis ..
qed

lemma pigeon_cycle:
  assumes fin: "finite (dom d)"
    and inside: "\<forall>k \<le> card (dom d). \<exists>c'. steps d k c = Some c' \<and> c' \<in> dom d"
  shows "cycle_reachable d c"
proof -
  let ?N = "card (dom d)"
  let ?f = "\<lambda>k. the (steps d k c)"
  have img: "?f ` {0..?N} \<subseteq> dom d"
    using inside by force
  have "card (?f ` {0..?N}) \<le> ?N"
    by (rule card_mono [OF fin img])
  then have "card (?f ` {0..?N}) < card {0..?N}" by simp
  then have "\<not> inj_on ?f {0..?N}" by (rule pigeonhole)
  then obtain i j where ij: "i \<le> ?N" "j \<le> ?N" "i \<noteq> j" "?f i = ?f j"
    by (auto simp: inj_on_def)
  have main: "cycle_reachable d c"
    if a: "a \<le> ?N" and b: "b \<le> ?N" and ab: "a < b" and e: "?f a = ?f b" for a b
  proof -
    from inside a obtain ca where ca: "steps d a c = Some ca" by blast
    from inside b obtain cb where cb: "steps d b c = Some cb" by blast
    have "ca = cb" using e ca cb by simp
    have "steps d (a + (b - a)) c = steps d (b - a) ca"
      by (simp add: steps_add ca)
    then have "steps d (b - a) ca = Some ca"
      using ab cb \<open>ca = cb\<close> by simp
    then show ?thesis
      unfolding cycle_reachable_def using ca ab by (intro exI [of _ a] exI [of _ "b - a"] exI [of _ ca]) simp
  qed
  show ?thesis
  proof (cases "i < j")
    case True
    then show ?thesis using main [of i j] ij by simp
  next
    case False
    then have "j < i" using ij(3) by simp
    then show ?thesis using main [of j i] ij by simp
  qed
qed

lemma steps_Suc_end:
  "steps d (Suc k) c =
     (case steps d k c of None \<Rightarrow> None
      | Some c' \<Rightarrow> (case d c' of None \<Rightarrow> None | Some s \<Rightarrow> Some (center s)))"
  using steps_add [of d k 1 c] by (simp split: option.split)

lemma endless_steps:
  assumes "center_walk c d = None"
  shows "\<exists>c'. steps d k c = Some c' \<and> c' \<in> dom d"
proof (induction k)
  case 0
  have "d c \<noteq> None" using assms walk_leaf [of d c] by auto
  then show ?case by auto
next
  case (Suc k)
  then obtain c' s where c': "steps d k c = Some c'" and s: "d c' = Some s" by auto
  then have st: "steps d (Suc k) c = Some (center s)"
    using steps_Suc_end [of d k c] by simp
  have "d (center s) \<noteq> None"
  proof
    assume "d (center s) = None"
    then have "center_walk (center s) d = Some []" by (rule walk_leaf)
    from walk_before_steps [OF st this] assms show False by simp
  qed
  with st show ?case by auto
qed

lemma no_cycle_walk_ends:
  assumes "finite (dom d)" and "\<not> cycle_reachable d c"
  shows "\<exists>w. center_walk c d = Some w"
proof (rule ccontr)
  assume "\<not> (\<exists>w. center_walk c d = Some w)"
  then have "center_walk c d = None" by simp
  then have "\<forall>k \<le> card (dom d). \<exists>c'. steps d k c = Some c' \<and> c' \<in> dom d"
    using endless_steps by blast
  from pigeon_cycle [OF assms(1) this] assms(2) show False by simp
qed

lemma walk_steps_exist:
  "center_walk c d = Some w \<Longrightarrow> k \<le> length w \<Longrightarrow>
   \<exists>c'. steps d k c = Some c' \<and> center_walk c' d = Some (drop k w)"
proof (induction k arbitrary: c w)
  case 0
  then show ?case by simp
next
  case (Suc k)
  from Suc.prems(2) have "w \<noteq> []" by auto
  with walk_Some_cases [OF Suc.prems(1)] obtain s rest where
    s: "d c = Some s" and r: "center_walk (center s) d = Some rest" and w: "w = s # rest"
    by auto
  from Suc.IH [OF r, of ] Suc.prems(2) w show ?case by (simp add: s)
qed

lemma walk_length_bound:
  assumes fin: "finite (dom d)" and w: "center_walk c d = Some w"
  shows "length w \<le> card (dom d)"
proof (rule ccontr)
  assume "\<not> length w \<le> card (dom d)"
  then have long: "card (dom d) < length w" by simp
  have "\<exists>c'. steps d k c = Some c' \<and> c' \<in> dom d" if "k \<le> card (dom d)" for k
  proof -
    have k: "k < length w" using that long by simp
    then obtain c' where c': "steps d k c = Some c'" "center_walk c' d = Some (drop k w)"
      using walk_steps_exist [OF w, of k] by auto
    have "drop k w \<noteq> []" using k by simp
    then have "d c' \<noteq> None" using c'(2) walk_leaf [of d c'] by auto
    with c'(1) show ?thesis by auto
  qed
  then have "cycle_reachable d c" using pigeon_cycle [OF fin] by blast
  from cycle_never_ends [OF this] w show False by simp
qed

lemma dom_fold_dict:
  "dom (fold (\<lambda>s m. m(target s \<mapsto> s)) segs m) = dom m \<union> target ` set segs"
  by (induction segs arbitrary: m) auto

lemma dom_segment_dict: "dom (segment_dict segs) = target ` set segs"
  by (simp add: segment_dict_def dom_fold_dict)

lemma finite_dom_segment_dict: "finite (dom (segment_dict segs))"
  by (simp add: dom_segment_dict)

lemma card_dom_segment_dict: "card (dom (segment_dict segs)) \<le> length segs"
proof -
  have "card (target ` set segs) \<le> card (set segs)" by (rule card_image_le) simp
  also have "\<dots> \<le> length segs" by (rule card_length)
  finally show ?thesis by (simp add: dom_segment_dict)
qed

lemma chain_root_Nil: "chain_root c [] = c"
  by (simp add: chain_root_def)

lemma chain_root_Cons: "chain_root c (s # rest) = chain_root (center s) rest"
  by (cases "rev rest") (simp_all add: chain_root_def)

lemma walk_reaches_root:
  "center_walk c d = Some w \<Longrightarrow>
   steps d (length w) c = Some (chain_root c w) \<and> d (chain_root c w) = None"
proof (induction w arbitrary: c)
  case Nil
  then show ?case using walk_Nil_iff [of c d] by (simp add: chain_root_Nil)
next
  case (Cons s rest)
  from walk_Some_cases [OF Cons.prems]
  have s: "d c = Some s" and r: "center_walk (center s) d = Some rest"
    by auto
  from Cons.IH [OF r] show ?case by (simp add: s chain_root_Cons)
qed

lemma body_at_of_walk:
  "center_walk (code self) (segment_dict (items h (segments self))) = Some w \<Longrightarrow>
   body_at h self t =
     Some (Inr \<lparr>cls = Barycentric, position = fst (tally [] (rev w) t),
                velocity = snd (tally [] (rev w) t), jd_of = t\<rparr>)"
  by (simp add: body_at_def split: prod.split)

lemma body_at_endless:
  "center_walk (code self) (segment_dict (items h (segments self))) = None \<Longrightarrow>
   body_at h self t = None"
  by (simp add: body_at_def)

text \<open>
  C4, amended. When the walk from the body leads into no cycle, chain resolution ends
  after at most as many lookups as there are segments, at an identifier that has no
  segment (the root of the chain, which need not be 0), and \<^verbatim>\<open>Body.at\<close> returns. When
  the walk leads into a cycle, chain resolution never ends and \<^verbatim>\<open>Body.at\<close> does not
  return: no error is raised.
\<close>

theorem chain_resolution_ends_unless_cyclic:
  "(\<not> cycle_reachable (segment_dict (items h (segments self))) (code self) \<longrightarrow>
      (\<exists>w. center_walk (code self) (segment_dict (items h (segments self))) = Some w \<and>
           length w \<le> length (items h (segments self)) \<and>
           steps (segment_dict (items h (segments self))) (length w) (code self)
             = Some (chain_root (code self) w) \<and>
           segment_dict (items h (segments self)) (chain_root (code self) w) = None \<and>
           body_at h self t =
             Some (Inr \<lparr>cls = Barycentric, position = fst (tally [] (rev w) t),
                        velocity = snd (tally [] (rev w) t), jd_of = t\<rparr>))) \<and>
   (cycle_reachable (segment_dict (items h (segments self))) (code self) \<longrightarrow>
      center_walk (code self) (segment_dict (items h (segments self))) = None \<and>
      body_at h self t = None)"
proof (intro conjI impI)
  let ?d = "segment_dict (items h (segments self))"
  assume "\<not> cycle_reachable ?d (code self)"
  from no_cycle_walk_ends [OF finite_dom_segment_dict this]
  obtain w where w: "center_walk (code self) ?d = Some w" by blast
  have "length w \<le> card (dom ?d)"
    by (rule walk_length_bound [OF finite_dom_segment_dict w])
  then have l: "length w \<le> length (items h (segments self))"
    using card_dom_segment_dict [of "items h (segments self)"] by simp
  from w l walk_reaches_root [OF w] body_at_of_walk [OF w, of t]
  show "\<exists>w. center_walk (code self) ?d = Some w \<and>
           length w \<le> length (items h (segments self)) \<and>
           steps ?d (length w) (code self) = Some (chain_root (code self) w) \<and>
           ?d (chain_root (code self) w) = None \<and>
           body_at h self t =
             Some (Inr \<lparr>cls = Barycentric, position = fst (tally [] (rev w) t),
                        velocity = snd (tally [] (rev w) t), jd_of = t\<rparr>)"
    by blast
next
  let ?d = "segment_dict (items h (segments self))"
  assume "cycle_reachable ?d (code self)"
  then show "center_walk (code self) ?d = None" by (rule cycle_never_ends)
  then show "body_at h self t = None" by (rule body_at_endless)
qed

lemma cyc_dict:
  "segment_dict [cyc_a, cyc_b] 1 = Some cyc_a"
  "segment_dict [cyc_a, cyc_b] 2 = Some cyc_b"
  by (simp_all add: segment_dict_def cyc_a_def cyc_b_def)

lemma cyc_centers: "center cyc_a = 2" "center cyc_b = 1"
  by (simp_all add: cyc_a_def cyc_b_def)

lemma cyc_cycle: "cycle_reachable (segment_dict [cyc_a, cyc_b]) 1"
proof -
  have "steps (segment_dict [cyc_a, cyc_b]) 0 1 = Some 1" by simp
  moreover have "steps (segment_dict [cyc_a, cyc_b]) (Suc (Suc 0)) 1 = Some 1"
    by (simp add: cyc_dict cyc_centers)
  ultimately show ?thesis
    unfolding cycle_reachable_def by (intro exI [of _ 0] exI [of _ "Suc (Suc 0)"] exI [of _ 1]) simp
qed

lemma cyc_items: "items cyc_store (segments (Body cyc_ephemeris c)) = [cyc_a, cyc_b]"
  by (simp add: items_def Body_def cyc_ephemeris_def cyc_store_def)

lemma body_code: "code (Body e c) = c"
  by (simp add: Body_def)

lemma scenario_no_cycle: "\<not> cycle_reachable (segment_dict [S1, S2]) 399"
  using cycle_never_ends [of "segment_dict [S1, S2]" 399] scenario_walk_399 by auto

theorem chain_resolution_ends_unless_cyclic_witness:
  "\<not> cycle_reachable (segment_dict (items scenario_store (segments (Body scenario_ephemeris 399))))
       (code (Body scenario_ephemeris 399)) \<and>
   center_walk 399 (segment_dict [S1, S2]) = Some [S2, S1] \<and>
   length [S2, S1] \<le> length (items scenario_store (segments (Body scenario_ephemeris 399))) \<and>
   segment_dict [S1, S2] (chain_root 399 [S2, S1]) = None \<and>
   cycle_reachable (segment_dict (items cyc_store (segments (Body cyc_ephemeris 1))))
       (code (Body cyc_ephemeris 1)) \<and>
   center_walk 1 (segment_dict [cyc_a, cyc_b]) = None \<and>
   body_at cyc_store (Body cyc_ephemeris 1) 7 = None"
proof -
  have n: "\<not> cycle_reachable
      (segment_dict (items scenario_store (segments (Body scenario_ephemeris 399))))
      (code (Body scenario_ephemeris 399))"
    by (simp add: scenario_items body_code scenario_no_cycle)
  have y: "cycle_reachable (segment_dict (items cyc_store (segments (Body cyc_ephemeris 1))))
       (code (Body cyc_ephemeris 1))"
    by (simp add: cyc_items body_code cyc_cycle)
  from chain_resolution_ends_unless_cyclic [of scenario_store "Body scenario_ephemeris 399" 5] n
  have a: "segment_dict [S1, S2] (chain_root 399 [S2, S1]) = None"
    by (simp add: scenario_items body_code scenario_walk_399)
  from chain_resolution_ends_unless_cyclic [of cyc_store "Body cyc_ephemeris 1" 7] y
  have b: "center_walk 1 (segment_dict [cyc_a, cyc_b]) = None \<and>
           body_at cyc_store (Body cyc_ephemeris 1) 7 = None"
    by (simp add: cyc_items body_code)
  from n y a b show ?thesis
    by (simp add: scenario_items scenario_walk_399)
qed

lemma rootless_items: "items h (segments (Body rootless_ephemeris c)) = [S2]"
  by (simp add: items_def Body_def rootless_ephemeris_def)

lemma rootless_walk: "center_walk 399 (segment_dict [S2]) = Some [S2]"
proof -
  have "segment_dict [S2] 399 = Some S2" "segment_dict [S2] 3 = None"
    by (simp_all add: segment_dict_def S2_def)
  then show ?thesis
    using walk_step [of "segment_dict [S2]" 399 S2] walk_leaf [of "segment_dict [S2]" 3]
    by (simp add: scenario_centers)
qed

theorem chain_resolution_counterexample:
  "body_at cyc_store (Body cyc_ephemeris 1) 5 = None \<and>
   body_at cyc_store (Body cyc_ephemeris 1) 5 \<noteq> Some (Inl MalformedSegmentGraph) \<and>
   center_walk (code (Body rootless_ephemeris 399))
     (segment_dict (items scenario_store (segments (Body rootless_ephemeris 399)))) = Some [S2] \<and>
   chain_root 399 [S2] = 3"
proof -
  have "center_walk 1 (segment_dict [cyc_a, cyc_b]) = None"
    by (rule cycle_never_ends [OF cyc_cycle])
  then have "body_at cyc_store (Body cyc_ephemeris 1) 5 = None"
    by (simp add: body_at_def cyc_items body_code)
  then show ?thesis
    by (simp add: rootless_items body_code rootless_walk chain_root_def scenario_centers)
qed

subsection \<open>Bodies without a chain to the barycenter\<close>

text \<open>
  C9, amended. Chain resolution raises nothing, so no \<open>UnknownBody\<close>: \<^verbatim>\<open>Body.at\<close> never
  returns an error. Whenever the walk ends, at whatever identifier, \<^verbatim>\<open>Body.at\<close> returns
  the tally of the chain as a barycentric result; for an identifier that has no segment
  the chain is empty and the result has the zero position and velocity.
\<close>

theorem unresolved_body_gets_result:
  "(\<forall>e. body_at h self t \<noteq> Some (Inl e)) \<and>
   (\<forall>w. center_walk (code self) (segment_dict (items h (segments self))) = Some w \<longrightarrow>
        body_at h self t =
          Some (Inr \<lparr>cls = Barycentric, position = fst (tally [] (rev w) t),
                     velocity = snd (tally [] (rev w) t), jd_of = t\<rparr>)) \<and>
   (segment_dict (items h (segments self)) (code self) = None \<longrightarrow>
      center_walk (code self) (segment_dict (items h (segments self))) = Some [] \<and>
      body_at h self t =
        Some (Inr \<lparr>cls = Barycentric, position = 0, velocity = 0, jd_of = t\<rparr>))"
proof (intro conjI allI impI)
  fix e
  show "body_at h self t \<noteq> Some (Inl e)"
    by (simp add: body_at_def split: option.split prod.split)
next
  fix w
  assume "center_walk (code self) (segment_dict (items h (segments self))) = Some w"
  then show "body_at h self t =
          Some (Inr \<lparr>cls = Barycentric, position = fst (tally [] (rev w) t),
                     velocity = snd (tally [] (rev w) t), jd_of = t\<rparr>)"
    by (rule body_at_of_walk)
next
  assume "segment_dict (items h (segments self)) (code self) = None"
  then show w: "center_walk (code self) (segment_dict (items h (segments self))) = Some []"
    by (rule walk_leaf)
  show "body_at h self t =
        Some (Inr \<lparr>cls = Barycentric, position = 0, velocity = 0, jd_of = t\<rparr>)"
    by (simp add: body_at_of_walk [OF w] tally_def)
qed

lemma scenario_dict_42: "segment_dict [S1, S2] 42 = None" "segment_dict [S1, S2] 7 = None"
  by (simp_all add: segment_dict_def S1_def S2_def)

theorem unresolved_body_gets_result_witness:
  "segment_dict (items scenario_store (segments (Body scenario_ephemeris 7)))
     (code (Body scenario_ephemeris 7)) = None \<and>
   center_walk (code (Body scenario_ephemeris 7))
     (segment_dict (items scenario_store (segments (Body scenario_ephemeris 7)))) = Some [] \<and>
   body_at scenario_store (Body scenario_ephemeris 7) 5 =
     Some (Inr \<lparr>cls = Barycentric, position = 0, velocity = 0, jd_of = 5\<rparr>) \<and>
   body_at scenario_store (Body scenario_ephemeris 7) 5 \<noteq> Some (Inl UnknownBody)"
proof -
  have n: "segment_dict (items scenario_store (segments (Body scenario_ephemeris 7)))
     (code (Body scenario_ephemeris 7)) = None"
    by (simp add: scenario_items body_code scenario_dict_42)
  show ?thesis
    using unresolved_body_gets_result [of scenario_store "Body scenario_ephemeris 7" 5] n
    by blast
qed

theorem unknown_body_counterexample:
  "segment_dict [S1, S2] 42 = None \<and>
   body_at scenario_store (Body scenario_ephemeris 42) 5 =
     Some (Inr \<lparr>cls = Barycentric, position = (0, 0, 0), velocity = (0, 0, 0), jd_of = 5\<rparr>) \<and>
   body_at scenario_store (Body scenario_ephemeris 42) 5 \<noteq> Some (Inl UnknownBody)"
proof -
  have "center_walk 42 (segment_dict [S1, S2]) = Some []"
    by (rule walk_leaf) (rule scenario_dict_42)
  then show ?thesis
    by (simp add: body_at_def scenario_items body_code scenario_dict_42 tally_def
        zero_prod_def)
qed

subsection \<open>\<^verbatim>\<open>Body.observe\<close>\<close>

lemma scenario_iadd:
  "seq_iadd scenario_store (segments (Body scenario_ephemeris a))
     (segments (Body scenario_ephemeris b)) =
   Inr (scenario_store(0 := [S1, S2, S1, S2]), PyList 0)"
  by (simp add: seq_iadd_def Body_def scenario_ephemeris_def scenario_store_def items_def)

lemma scenario_items_after:
  "items (scenario_store(0 := [S1, S2, S1, S2])) (PyList 0) = [S1, S2, S1, S2]"
  by (simp add: items_def)

lemma scenario_walk2_0: "center_walk 0 (segment_dict [S1, S2, S1, S2]) = Some []"
  by (rule walk_leaf) (rule scenario_dict2)

lemma scenario_walk2_42: "center_walk 42 (segment_dict [S1, S2, S1, S2]) = Some []"
  by (rule walk_leaf) (simp add: segment_dict_def S1_def S2_def)

text \<open>
  What \<^verbatim>\<open>observe\<close> does once both chains are resolved: \<open>IndexError\<close> when one of them is
  empty, \<open>NoCommonCenter\<close> unless both start at body 0, and otherwise a Solution that
  holds the two full chains, root first.
\<close>

lemma observe_chains_cases:
  assumes "center_walk c (segment_dict segs) = Some w1"
    and "center_walk tg (segment_dict segs) = Some w2"
  shows "observe_chains segs c tg =
     Some (if w1 = [] \<or> w2 = [] then Inl IndexError
           else if center (last w1) = 0 \<and> center (last w2) = 0
           then Inr \<lparr>sol_center = c, sol_target = tg,
                     sol_center_chain = rev w1, sol_target_chain = rev w2\<rparr>
           else Inl NoCommonCenter)"
proof (cases "w1 = [] \<or> w2 = []")
  case True
  then show ?thesis
    by (auto simp: observe_chains_def assms split: list.splits)
next
  case False
  then obtain a ra b rb where a: "rev w1 = a # ra" and b: "rev w2 = b # rb"
    by (cases "rev w1"; cases "rev w2") auto
  have "last w1 = a" "last w2 = b"
    using arg_cong [OF a, of hd] arg_cong [OF b, of hd] by (simp_all add: hd_rev)
  then show ?thesis
    using False a b by (auto simp: observe_chains_def assms)
qed

text \<open>
  C5. \<^verbatim>\<open>observe\<close> from body 399 of the scenario, of the barycenter itself (body 0) and of
  a body that no segment names (body 42): the chain of the other body is empty, and
  \<^verbatim>\<open>target_chain[0]\<close> raises \<open>IndexError\<close>. Neither a Solution nor \<open>NoCommonCenter\<close>
  comes out.
\<close>

theorem observe_empty_chain_index_error:
  "map_option snd (observe scenario_store (Body scenario_ephemeris 399)
                     (IsBody (Body scenario_ephemeris 0))) = Some (Inl IndexError) \<and>
   map_option snd (observe scenario_store (Body scenario_ephemeris 399)
                     (IsBody (Body scenario_ephemeris 42))) = Some (Inl IndexError)"
  by (simp add: observe_def scenario_iadd scenario_items_after body_code observe_chains_def
      scenario_walk2_399 scenario_walk2_0 scenario_walk2_42 option.map_comp)

text \<open>
  C10. \<^verbatim>\<open>observe\<close> from body 399 of the scenario, of body 3 of the same ephemeris: the
  call returns a Solution, and the list of segments that the ephemeris and both bodies
  share, \<open>[S1, S2]\<close> before the call, is \<open>[S1, S2, S1, S2]\<close> after it.
\<close>

theorem observe_extends_shared_list:
  "scenario_store 0 = [S1, S2] \<and>
   items scenario_store (eph_segments scenario_ephemeris) = [S1, S2] \<and>
   map_option (\<lambda>r. fst r 0) (observe scenario_store (Body scenario_ephemeris 399)
                                (IsBody (Body scenario_ephemeris 3))) = Some [S1, S2, S1, S2] \<and>
   map_option (\<lambda>r. items (fst r) (eph_segments scenario_ephemeris))
     (observe scenario_store (Body scenario_ephemeris 399)
        (IsBody (Body scenario_ephemeris 3))) = Some [S1, S2, S1, S2] \<and>
   map_option snd (observe scenario_store (Body scenario_ephemeris 399)
                     (IsBody (Body scenario_ephemeris 3))) =
     Some (Inr \<lparr>sol_center = 399, sol_target = 3,
                sol_center_chain = [S1, S2], sol_target_chain = [S1]\<rparr>)"
proof -
  have o: "observe scenario_store (Body scenario_ephemeris 399)
             (IsBody (Body scenario_ephemeris 3)) =
           Some (scenario_store(0 := [S1, S2, S1, S2]),
                 Inr \<lparr>sol_center = 399, sol_target = 3,
                      sol_center_chain = [S1, S2], sol_target_chain = [S1]\<rparr>)"
    by (simp add: observe_def scenario_iadd scenario_items_after body_code observe_chains_def
        scenario_walk2_399 scenario_walk2_3 scenario_centers)
  have b: "scenario_store 0 = [S1, S2]"
    "items scenario_store (eph_segments scenario_ephemeris) = [S1, S2]"
    by (simp_all add: scenario_store_def items_def scenario_ephemeris_def)
  have e: "eph_segments scenario_ephemeris = PyList 0"
    by (simp add: scenario_ephemeris_def)
  show ?thesis
    unfolding o by (simp add: b e items_def)
qed

text \<open>
  With a tuple as the body's segment collection \<^verbatim>\<open>+=\<close> rebinds the local name, and the
  store is as before; the other query operations have no store to return.
\<close>

lemma observe_tuple_keeps_store:
  assumes "segments self = PyTuple xs" and "observe h self other = Some (h', r)"
  shows "h' = h"
  using assms
  by (auto simp: observe_def seq_iadd_def split: other.splits seq.splits sum.splits)

end
